theory Spec2Isabelle
  imports Main
begin

section \<open>Values of the graphics context\<close>

text \<open>
  The state tracker of \<^verbatim>\<open>track-context-state.ts\<close> stores JavaScript values: parameter
  identifiers (GLenum numbers), booleans, numbers, WebGL object handles and arrays
  (plain or typed). An object handle and an array carry the identity of their container,
  so that the strict comparison \<^verbatim>\<open>===\<close> of the source (equality of references) is the
  equality of HOL on this type, and two arrays with the same elements in two
  containers are different values. Numbers are integers here: floating point (and
  NaN, the one number not equal to itself) is outside the model.
\<close>

datatype glvalue =
    Undefined
  | Null
  | Boolean bool
  | Number int
  | Object nat
  | Array nat "glvalue list"

text \<open>
  Modelled from the spec: \<^verbatim>\<open>deepArrayEqual\<close> is imported from \<^verbatim>\<open>../utils/utils\<close>, which
  is not among the sources. The specification asks for deep structural equality,
  order-sensitive for sequences: two values are equal only if recursively structurally
  equal, and an element-wise equal array in a distinct container is equal.
\<close>

fun deepArrayEqual :: "glvalue \<Rightarrow> glvalue \<Rightarrow> bool"
  and deepArrayEqualElems :: "glvalue list \<Rightarrow> glvalue list \<Rightarrow> bool" where
  "deepArrayEqual (Array i xs) (Array j ys) = deepArrayEqualElems xs ys"
| "deepArrayEqual x y = (x = y)"
| "deepArrayEqualElems [] [] = True"
| "deepArrayEqualElems (x # xs) (y # ys) = (deepArrayEqual x y \<and> deepArrayEqualElems xs ys)"
| "deepArrayEqualElems xs ys = False"

section \<open>The state object and the context\<close>

text \<open>
  A JavaScript object used as a dictionary is a map when only lookups and updates
  happen (the cache), and an association list when it is also enumerated: the values
  handed to \<^verbatim>\<open>_updateCache\<close> are listed in the order in which \<^verbatim>\<open>for ... in\<close> visits
  them, and a frame of the state stack in the order in which its entries were recorded.
  JavaScript visits integer keys in ascending order; a frame never holds an identifier
  twice, so the order in which it is restored does not change the cache that results.
\<close>

type_synonym glvalues = "(glvalue \<times> glvalue) list"

text \<open>
  Class \<^verbatim>\<open>GLState\<close>. The field \<^verbatim>\<open>log\<close> is stored by the constructor and never called,
  and \<^verbatim>\<open>gl\<close> is the back reference to the context, which the model passes explicitly.
  The top of \<^verbatim>\<open>stateStack\<close> is the last element, as with \<^verbatim>\<open>Array.push\<close>.
\<close>

record GLState =
  program :: glvalue
  stateStack :: "glvalues list"
  enable :: bool
  cache :: "glvalue \<rightharpoonup> glvalue"

datatype error = TypeError | AssertionFailed

text \<open>
  What reaches the underlying context: a call of one of its original functions, or the
  parameter values that \<^verbatim>\<open>setParameters\<close> applies when a frame is restored.
\<close>

datatype glcall =
    NativeCall string "glvalue list"
  | Restore glvalues

text \<open>
  A function value stored in a property of the context: the original function of the
  WebGL implementation (named by the property it was found in), or one of the three
  closures that the tracker installs, each holding the function it replaced. The
  adapter of a hooked setter comes from the table \<^verbatim>\<open>GL_HOOKED_SETTERS\<close>.
\<close>

text \<open>
  Modelled from the spec: the table \<^verbatim>\<open>GL_HOOKED_SETTERS\<close> is not among the sources. An
  adapter translates the arguments of the call into one or more identifier/value
  entries and forwards them to the update routine of the cache; it is given here by its
  translation.
\<close>

type_synonym adapter = "glvalue list \<Rightarrow> glvalues"

datatype glfunction =
    Native string
  | GetterOverride glfunction
  | SetterSpy adapter glfunction
  | ProgramSpy glfunction

text \<open>
  The context object: the attached state (\<^verbatim>\<open>gl.state\<close>, absent before tracking), its
  function properties, and the opaque implementation underneath: the calls it has
  received so far and the value each of its functions returns after them.
\<close>

record webgl_context =
  state :: "GLState option"
  methods :: "string \<rightharpoonup> glfunction"
  trace :: "glcall list"
  native :: "glcall list \<Rightarrow> string \<Rightarrow> glvalue list \<Rightarrow> glvalue"

text \<open>
  The imported tables of \<^verbatim>\<open>webgl-parameter-tables\<close> and the global hook
  \<^verbatim>\<open>polyfillContext\<close> are parameters of the model.
\<close>

record env =
  GL_PARAMETER_DEFAULTS :: glvalues
  GL_HOOKED_SETTERS :: "(string \<times> adapter) list"
  NON_CACHE_PARAMETERS :: "glvalue list"
  polyfillContext :: "(webgl_context \<Rightarrow> webgl_context) option"

text \<open>Reading a property of a dictionary object: \<^verbatim>\<open>undefined\<close> when the key is absent.\<close>

definition getProp :: "(glvalue \<rightharpoonup> glvalue) \<Rightarrow> glvalue \<Rightarrow> glvalue" where
  "getProp obj key = (case obj key of None \<Rightarrow> Undefined | Some v \<Rightarrow> v)"

text \<open>The first parameter of a call: \<^verbatim>\<open>undefined\<close> when no argument is passed.\<close>

definition arg0 :: "glvalue list \<Rightarrow> glvalue" where
  "arg0 args = (case args of [] \<Rightarrow> Undefined | p # _ \<Rightarrow> p)"

section \<open>GLState\<close>

text \<open>
  The loop of \<^verbatim>\<open>_updateCache\<close> over the entries of \<^verbatim>\<open>values\<close>. \<^verbatim>\<open>oldValues\<close> is the
  top frame when there is one (\<open>None\<close> is the \<^verbatim>\<open>false\<close> of the source); the loop
  writes into it and into the cache. The assertion \<^verbatim>\<open>key !== undefined\<close> cannot fail, a
  key enumerated by \<^verbatim>\<open>for ... in\<close> being a string.
\<close>

fun updateCache_loop ::
  "glvalues \<Rightarrow> glvalues option \<Rightarrow> (glvalue \<rightharpoonup> glvalue) \<Rightarrow> bool \<Rightarrow> glvalue
    \<Rightarrow> glvalues option \<times> (glvalue \<rightharpoonup> glvalue) \<times> bool \<times> glvalue" where
  "updateCache_loop [] oldValues c valueChanged oldValue = (oldValues, c, valueChanged, oldValue)"
| "updateCache_loop ((key, val) # rest) oldValues c valueChanged oldValue =
     (let cached = getProp c key in
      if \<not> deepArrayEqual val cached then
        updateCache_loop rest
          (case oldValues of
             None \<Rightarrow> None
           | Some frame \<Rightarrow>
               if key \<notin> set (map fst frame) then Some (frame @ [(key, cached)]) else Some frame)
          (c(key \<mapsto> val)) True cached
      else updateCache_loop rest oldValues c valueChanged oldValue)"

text \<open>
  \<^verbatim>\<open>GLState._updateCache\<close>: returns the updated state with \<^verbatim>\<open>valueChanged\<close> and
  \<^verbatim>\<open>oldValue\<close>. The frame is an alias of the top of the stack in the source, so what the
  loop wrote to it is the new top.
\<close>

definition updateCache :: "GLState \<Rightarrow> glvalues \<Rightarrow> GLState \<times> bool \<times> glvalue" where
  "updateCache st vals =
     (let oldValues = (if length (stateStack st) > 0 then Some (last (stateStack st)) else None)
      in case updateCache_loop vals oldValues (cache st) False Undefined of
           (oldValues', c', valueChanged, oldValue) \<Rightarrow>
             (st\<lparr>stateStack :=
                    (case oldValues' of
                       None \<Rightarrow> stateStack st
                     | Some frame \<Rightarrow> butlast (stateStack st) @ [frame]),
                  cache := c'\<rparr>,
              valueChanged, oldValue))"

text \<open>\<^verbatim>\<open>GLState.push\<close>: the parameter \<^verbatim>\<open>values\<close> is ignored by the source.\<close>

definition push :: "GLState \<Rightarrow> GLState" where
  "push st = st\<lparr>stateStack := stateStack st @ [[]]\<rparr>"

section \<open>The installed closures\<close>

text \<open>
  Calling a function value on the context. \<open>Native\<close> is the implementation: the call
  is appended to the trace and the answer is the implementation's. The other three
  cases are the closures \<^verbatim>\<open>get\<close> of \<^verbatim>\<open>installGetterOverride\<close>, \<^verbatim>\<open>set\<close> of
  \<^verbatim>\<open>installSetterSpy\<close> and \<^verbatim>\<open>useProgramLuma\<close> of \<^verbatim>\<open>installProgramSpy\<close>. Reading
  \<^verbatim>\<open>gl.state.cache\<close> on a context without state is a TypeError.
\<close>

fun invoke :: "env \<Rightarrow> glfunction \<Rightarrow> glvalue list \<Rightarrow> webgl_context \<Rightarrow> error + glvalue \<times> webgl_context" where
  "invoke E (Native functionName) args gl =
     Inr (native gl (trace gl) functionName args,
          gl\<lparr>trace := trace gl @ [NativeCall functionName args]\<rparr>)"
| "invoke E (GetterOverride originalGetterFunc) args gl =
     (let pname = arg0 args in
      if pname = Undefined \<or> pname \<in> set (NON_CACHE_PARAMETERS E) then
        invoke E originalGetterFunc [pname] gl
      else
        (case state gl of
           None \<Rightarrow> Inl TypeError
         | Some st \<Rightarrow>
             (case (if cache st pname = None then
                      (case invoke E originalGetterFunc [pname] gl of
                         Inl e \<Rightarrow> Inl e
                       | Inr (v, gl1) \<Rightarrow>
                           (case state gl1 of
                              None \<Rightarrow> Inl TypeError
                            | Some st1 \<Rightarrow>
                                Inr (gl1\<lparr>state := Some (st1\<lparr>cache := (cache st1)(pname \<mapsto> v)\<rparr>)\<rparr>)))
                    else Inr gl) of
                Inl e \<Rightarrow> Inl e
              | Inr gl2 \<Rightarrow>
                  (case state gl2 of
                     None \<Rightarrow> Inl TypeError
                   | Some st2 \<Rightarrow>
                       if enable st2 then Inr (getProp (cache st2) pname, gl2)
                       else invoke E originalGetterFunc [pname] gl2))))"
| "invoke E (SetterSpy setter originalSetterFunc) args gl =
     (case state gl of
        None \<Rightarrow> Inl TypeError
      | Some st \<Rightarrow>
          (case updateCache st (setter args) of
             (st', valueChanged, oldValue) \<Rightarrow>
               if valueChanged then
                 (case invoke E originalSetterFunc args (gl\<lparr>state := Some st'\<rparr>) of
                    Inl e \<Rightarrow> Inl e
                  | Inr (r, gl1) \<Rightarrow> Inr (oldValue, gl1))
               else Inr (oldValue, gl\<lparr>state := Some st'\<rparr>)))"
| "invoke E (ProgramSpy originalUseProgram) args gl =
     (let handle = arg0 args in
      case state gl of
        None \<Rightarrow> Inl TypeError
      | Some st \<Rightarrow>
          if program st \<noteq> handle then
            (case invoke E originalUseProgram [handle] gl of
               Inl e \<Rightarrow> Inl e
             | Inr (r, gl1) \<Rightarrow>
                 (case state gl1 of
                    None \<Rightarrow> Inl TypeError
                  | Some st1 \<Rightarrow> Inr (Undefined, gl1\<lparr>state := Some (st1\<lparr>program := handle\<rparr>)\<rparr>)))
          else Inr (Undefined, gl))"

text \<open>\<^verbatim>\<open>gl[functionName](...args)\<close>: calling a missing property is a TypeError.\<close>

definition callMethod :: "env \<Rightarrow> webgl_context \<Rightarrow> string \<Rightarrow> glvalue list \<Rightarrow> error + glvalue \<times> webgl_context" where
  "callMethod E gl functionName args =
     (case methods gl functionName of
        None \<Rightarrow> Inl TypeError
      | Some m \<Rightarrow> invoke E m args gl)"

section \<open>Restoring a frame\<close>

text \<open>
  Modelled from the spec: \<^verbatim>\<open>assert\<close> is imported from \<^verbatim>\<open>../utils/assert\<close>, which is
  not among the sources. A violated precondition is a fatal assertion: the call ends
  there with an error that nothing catches.
\<close>

definition assert :: "bool \<Rightarrow> error + unit" where
  "assert condition = (if condition then Inr () else Inl AssertionFailed)"

text \<open>
  Modelled from the spec: \<^verbatim>\<open>setParameters\<close> is imported from
  \<^verbatim>\<open>./unified-parameter-api\<close>, which is not among the sources. The recorded mapping
  is applied through the same path as a normal multi-parameter set: the update
  routine of the cache compares and stores the entries, and only if it reports a
  change do the values reach the underlying context. On a context without state
  there is no cache to consult.
\<close>

definition setParameters :: "webgl_context \<Rightarrow> glvalues \<Rightarrow> error + webgl_context" where
  "setParameters gl vals =
     (case state gl of
        None \<Rightarrow> Inr (gl\<lparr>trace := trace gl @ [Restore vals]\<rparr>)
      | Some st \<Rightarrow>
          (case updateCache st vals of
             (st', valueChanged, oldValue) \<Rightarrow>
               if valueChanged then
                 Inr (gl\<lparr>state := Some st', trace := trace gl @ [Restore vals]\<rparr>)
               else Inr (gl\<lparr>state := Some st'\<rparr>)))"

text \<open>
  \<^verbatim>\<open>GLState.pop\<close>, on the context that owns the state (\<^verbatim>\<open>this.gl\<close>). The frame is
  removed from the stack as it is after \<^verbatim>\<open>setParameters\<close> has returned.
\<close>

definition pop :: "webgl_context \<Rightarrow> error + webgl_context" where
  "pop gl =
     (case state gl of
        None \<Rightarrow> Inl TypeError
      | Some st \<Rightarrow>
          (case assert (length (stateStack st) > 0) of
             Inl e \<Rightarrow> Inl e
           | Inr u \<Rightarrow>
               (let oldValues = last (stateStack st) in
                case setParameters gl oldValues of
                  Inl e \<Rightarrow> Inl e
                | Inr gl1 \<Rightarrow>
                    (case state gl1 of
                       None \<Rightarrow> Inl TypeError
                     | Some st1 \<Rightarrow>
                         Inr (gl1\<lparr>state := Some (st1\<lparr>stateStack := butlast (stateStack st1)\<rparr>)\<rparr>)))))"

section \<open>Installing the tracker\<close>

text \<open>
  Modelled from the spec: \<^verbatim>\<open>getParameters\<close> is imported from
  \<^verbatim>\<open>./unified-parameter-api\<close>, which is not among the sources. It takes a live
  snapshot of all cacheable parameters, one query of the context for each.
\<close>

fun getParameters ::
  "env \<Rightarrow> webgl_context \<Rightarrow> glvalue list \<Rightarrow> error + (glvalue \<rightharpoonup> glvalue) \<times> webgl_context" where
  "getParameters E gl [] = Inr (Map.empty, gl)"
| "getParameters E gl (key # keys) =
     (case callMethod E gl ''getParameter'' [key] of
        Inl e \<Rightarrow> Inl e
      | Inr (v, gl1) \<Rightarrow>
          (case getParameters E gl1 keys of
             Inl e \<Rightarrow> Inl e
           | Inr (c, gl2) \<Rightarrow> Inr (c(key \<mapsto> v), gl2)))"

text \<open>
  The constructor of \<^verbatim>\<open>GLState\<close>, with the option \<^verbatim>\<open>copyState\<close>, which defaults to
  \<^verbatim>\<open>false\<close> when it is left out.
\<close>

definition new_GLState ::
  "env \<Rightarrow> webgl_context \<Rightarrow> bool option \<Rightarrow> error + GLState \<times> webgl_context" where
  "new_GLState E gl copyState =
     (case (if (case copyState of None \<Rightarrow> False | Some b \<Rightarrow> b) then getParameters E gl (map fst (GL_PARAMETER_DEFAULTS E))
            else Inr (map_of (GL_PARAMETER_DEFAULTS E), gl)) of
        Inl e \<Rightarrow> Inl e
      | Inr (c, gl1) \<Rightarrow>
          Inr (\<lparr>program = Null, stateStack = [], enable = True, cache = c\<rparr>, gl1))"

text \<open>
  The three installers replace a property of the context by a closure over the
  function found there. \<^verbatim>\<open>gl[functionName].bind\<close> on a missing property is a TypeError;
  \<^verbatim>\<open>installSetterSpy\<close> checks for it first and skips the function. The debugging name
  given to the closure has no effect on calls.
\<close>

definition installGetterOverride :: "webgl_context \<Rightarrow> string \<Rightarrow> error + webgl_context" where
  "installGetterOverride gl functionName =
     (case methods gl functionName of
        None \<Rightarrow> Inl TypeError
      | Some originalGetterFunc \<Rightarrow>
          Inr (gl\<lparr>methods := (methods gl)(functionName \<mapsto> GetterOverride originalGetterFunc)\<rparr>))"

definition installSetterSpy :: "webgl_context \<Rightarrow> string \<Rightarrow> adapter \<Rightarrow> webgl_context" where
  "installSetterSpy gl functionName setter =
     (case methods gl functionName of
        None \<Rightarrow> gl
      | Some originalSetterFunc \<Rightarrow>
          gl\<lparr>methods := (methods gl)(functionName \<mapsto> SetterSpy setter originalSetterFunc)\<rparr>)"

definition installProgramSpy :: "webgl_context \<Rightarrow> error + webgl_context" where
  "installProgramSpy gl =
     (case methods gl ''useProgram'' of
        None \<Rightarrow> Inl TypeError
      | Some originalUseProgram \<Rightarrow>
          Inr (gl\<lparr>methods := (methods gl)(''useProgram'' \<mapsto> ProgramSpy originalUseProgram)\<rparr>))"

fun installSetterSpies :: "webgl_context \<Rightarrow> (string \<times> adapter) list \<Rightarrow> webgl_context" where
  "installSetterSpies gl [] = gl"
| "installSetterSpies gl ((key, setter) # rest) =
     installSetterSpies (installSetterSpy gl key setter) rest"

text \<open>
  The block of \<^verbatim>\<open>trackContextState\<close> that runs when the context has no state yet.
\<close>

definition installTracking ::
  "env \<Rightarrow> webgl_context \<Rightarrow> bool option \<Rightarrow> error + webgl_context" where
  "installTracking E gl copyState =
     (let gl0 = (case polyfillContext E of None \<Rightarrow> gl | Some f \<Rightarrow> f gl) in
      case new_GLState E gl0 copyState of
        Inl e \<Rightarrow> Inl e
      | Inr (st, gl1) \<Rightarrow>
          (case installProgramSpy (gl1\<lparr>state := Some st\<rparr>) of
             Inl e \<Rightarrow> Inl e
           | Inr gl2 \<Rightarrow>
               (case installGetterOverride (installSetterSpies gl2 (GL_HOOKED_SETTERS E))
                       ''getParameter'' of
                  Inl e \<Rightarrow> Inl e
                | Inr gl3 \<Rightarrow> installGetterOverride gl3 ''isEnabled'')))"

section \<open>Public API\<close>

text \<open>
  The options object of \<^verbatim>\<open>trackContextState\<close>: a member that is left out is
  \<open>None\<close>. The member \<^verbatim>\<open>log\<close> is never read.
\<close>

record options =
  opt_enable :: "bool option"
  opt_copyState :: "bool option"

text \<open>
  \<^verbatim>\<open>trackContextState\<close>; \<open>None\<close> for \<open>options\<close> is the call without the optional
  second argument, whose destructuring is a TypeError.
\<close>

definition trackContextState :: "env \<Rightarrow> webgl_context \<Rightarrow> options option \<Rightarrow> error + webgl_context" where
  "trackContextState E gl options =
     (case options of
        None \<Rightarrow> Inl TypeError
      | Some opts \<Rightarrow>
          (let enable' = (case opt_enable opts of None \<Rightarrow> True | Some b \<Rightarrow> b) in
           case assert (opt_copyState opts \<noteq> None) of
             Inl e \<Rightarrow> Inl e
           | Inr u \<Rightarrow>
               (case (if state gl = None then installTracking E gl (opt_copyState opts)
                      else Inr gl) of
                  Inl e \<Rightarrow> Inl e
                | Inr gl1 \<Rightarrow>
                    (case state gl1 of
                       None \<Rightarrow> Inl TypeError
                     | Some st \<Rightarrow> Inr (gl1\<lparr>state := Some (st\<lparr>enable := enable'\<rparr>)\<rparr>)))))"

definition pushContextState :: "env \<Rightarrow> webgl_context \<Rightarrow> error + webgl_context" where
  "pushContextState E gl =
     (case (if state gl = None then
              trackContextState E gl (Some \<lparr>opt_enable = None, opt_copyState = Some False\<rparr>)
            else Inr gl) of
        Inl e \<Rightarrow> Inl e
      | Inr gl1 \<Rightarrow>
          (case state gl1 of
             None \<Rightarrow> Inl TypeError
           | Some st \<Rightarrow> Inr (gl1\<lparr>state := Some (push st)\<rparr>)))"

definition popContextState :: "webgl_context \<Rightarrow> error + webgl_context" where
  "popContextState gl =
     (case assert (state gl \<noteq> None) of
        Inl e \<Rightarrow> Inl e
      | Inr u \<Rightarrow> pop gl)"

section \<open>Call sequences and an example context\<close>

text \<open>
  A caller's program on a tracked context: \<^verbatim>\<open>gl.state.push()\<close>, \<^verbatim>\<open>gl.state.pop()\<close> and
  calls of function values, run in order and stopping at the first error.
\<close>

datatype step = Push | Pop | Call glfunction "glvalue list"

fun run :: "env \<Rightarrow> step list \<Rightarrow> webgl_context \<Rightarrow> error + webgl_context" where
  "run E [] gl = Inr gl"
| "run E (Push # rest) gl =
     (case state gl of
        None \<Rightarrow> Inl TypeError
      | Some st \<Rightarrow> run E rest (gl\<lparr>state := Some (push st)\<rparr>))"
| "run E (Pop # rest) gl =
     (case pop gl of
        Inl e \<Rightarrow> Inl e
      | Inr gl1 \<Rightarrow> run E rest gl1)"
| "run E (Call m args # rest) gl =
     (case invoke E m args gl of
        Inl e \<Rightarrow> Inl e
      | Inr (r, gl1) \<Rightarrow> run E rest gl1)"

text \<open>
  The same context with another value of the flag \<^verbatim>\<open>gl.state.enable\<close>.
\<close>

definition withEnable :: "bool \<Rightarrow> webgl_context \<Rightarrow> webgl_context" where
  "withEnable b gl = gl\<lparr>state := map_option (\<lambda>st. st\<lparr>enable := b\<rparr>) (state gl)\<rparr>"

text \<open>
  A small configuration on which the functions above are evaluated: the capability
  \<^verbatim>\<open>DEPTH_TEST\<close> (2929) and the vector \<^verbatim>\<open>VIEWPORT\<close> (2978) are cached,
  \<^verbatim>\<open>ACTIVE_TEXTURE\<close> (34016) is excluded from the cache, and \<^verbatim>\<open>enable\<close>, \<^verbatim>\<open>disable\<close>
  and \<^verbatim>\<open>viewport\<close> are hooked. The implementation underneath answers the query of
  \<^verbatim>\<open>ACTIVE_TEXTURE\<close> with \<^verbatim>\<open>TEXTURE0\<close> (33984) and the query of \<^verbatim>\<open>DEPTH_TEST\<close> with
  \<^verbatim>\<open>true\<close>, which is not the default that the cache starts from, and every other call
  with \<^verbatim>\<open>undefined\<close>.
\<close>

definition enable_adapter :: adapter where
  "enable_adapter args = [(arg0 args, Boolean True)]"

definition disable_adapter :: adapter where
  "disable_adapter args = [(arg0 args, Boolean False)]"

definition viewport_adapter :: adapter where
  "viewport_adapter args = [(Number 2978, Array 1 args)]"

definition demo_env :: env where
  "demo_env =
     \<lparr>GL_PARAMETER_DEFAULTS =
        [(Number 2929, Boolean False),
         (Number 2978, Array 0 [Number 0, Number 0, Number 300, Number 150])],
      GL_HOOKED_SETTERS =
        [(''enable'', enable_adapter),
         (''disable'', disable_adapter),
         (''viewport'', viewport_adapter)],
      NON_CACHE_PARAMETERS = [Number 34016],
      polyfillContext = None\<rparr>"

definition demo_native :: "glcall list \<Rightarrow> string \<Rightarrow> glvalue list \<Rightarrow> glvalue" where
  "demo_native calls functionName args =
     (if functionName = ''getParameter'' \<and> args = [Number 34016] then Number 33984
      else if functionName = ''getParameter'' \<and> args = [Number 2929] then Boolean True
      else Undefined)"

definition demo_gl :: webgl_context where
  "demo_gl =
     \<lparr>state = None,
      methods =
        [''getParameter'' \<mapsto> Native ''getParameter'',
         ''isEnabled'' \<mapsto> Native ''isEnabled'',
         ''useProgram'' \<mapsto> Native ''useProgram'',
         ''enable'' \<mapsto> Native ''enable'',
         ''disable'' \<mapsto> Native ''disable'',
         ''viewport'' \<mapsto> Native ''viewport''],
      trace = [],
      native = demo_native\<rparr>"

text \<open>The state and the context that tracking the example context gives.\<close>

definition demo_state :: GLState where
  "demo_state =
     \<lparr>program = Null, stateStack = [], enable = True,
      cache =
        [Number 2978 \<mapsto> Array 0 [Number 0, Number 0, Number 300, Number 150],
         Number 2929 \<mapsto> Boolean False]\<rparr>"

text \<open>The example state inside a scope in which \<^verbatim>\<open>DEPTH_TEST\<close> has been enabled.\<close>

definition demo_scoped :: GLState where
  "demo_scoped =
     demo_state\<lparr>stateStack := [[(Number 2929, Boolean False)]],
                cache := (cache demo_state)(Number 2929 \<mapsto> Boolean True)\<rparr>"

definition demo_getParameter :: glfunction where
  "demo_getParameter = GetterOverride (Native ''getParameter'')"

definition demo_useProgram :: glfunction where
  "demo_useProgram = ProgramSpy (Native ''useProgram'')"

definition demo_enable :: glfunction where
  "demo_enable = SetterSpy enable_adapter (Native ''enable'')"

definition demo_disable :: glfunction where
  "demo_disable = SetterSpy disable_adapter (Native ''disable'')"

definition demo_viewport :: glfunction where
  "demo_viewport = SetterSpy viewport_adapter (Native ''viewport'')"

definition demo_tracked :: "GLState \<Rightarrow> webgl_context" where
  "demo_tracked st =
     \<lparr>state = Some st,
      methods =
        [''getParameter'' \<mapsto> demo_getParameter,
         ''isEnabled'' \<mapsto> GetterOverride (Native ''isEnabled''),
         ''useProgram'' \<mapsto> demo_useProgram,
         ''enable'' \<mapsto> demo_enable,
         ''disable'' \<mapsto> demo_disable,
         ''viewport'' \<mapsto> demo_viewport],
      trace = [],
      native = demo_native\<rparr>"

section \<open>Deep equality\<close>

lemma deepArrayEqualElems_same:
  "(\<And>x. x \<in> set xs \<Longrightarrow> deepArrayEqual x x) \<Longrightarrow> deepArrayEqualElems xs xs"
  by (induction xs) simp_all

lemma deepArrayEqual_refl: "deepArrayEqual x x"
  by (induction x) (simp_all add: deepArrayEqualElems_same)

lemma deepArrayEqual_sym_aux:
  "deepArrayEqual x y \<Longrightarrow> deepArrayEqual y x"
  "deepArrayEqualElems xs ys \<Longrightarrow> deepArrayEqualElems ys xs"
  by (induction x y and xs ys rule: deepArrayEqual_deepArrayEqualElems.induct) auto

lemma deepArrayEqual_sym: "deepArrayEqual x y = deepArrayEqual y x"
  using deepArrayEqual_sym_aux(1) by blast

lemma deepArrayEqual_container: "deepArrayEqual (Array i xs) (Array j xs)"
  using deepArrayEqual_refl [of "Array i xs"] by simp

section \<open>The update routine\<close>

lemma updateCache_loop_same:
  "\<forall>(k, v)\<in>set vals. deepArrayEqual v (getProp c k) \<Longrightarrow>
   updateCache_loop vals ov c ch old = (ov, c, ch, old)"
  by (induction vals) auto

lemma updateCache_same:
  "\<forall>(k, v)\<in>set vals. deepArrayEqual v (getProp (cache st) k) \<Longrightarrow>
   updateCache st vals = (st, False, Undefined)"
  by (simp add: updateCache_def updateCache_loop_same)

lemma updateCache_loop_changed:
  "fst (snd (snd (updateCache_loop vals ov c ch old))) =
     (ch \<or> (\<exists>(k, v)\<in>set vals. \<not> deepArrayEqual v (getProp c k)))"
proof (induction vals arbitrary: ov c ch old)
  case Nil
  then show ?case by simp
next
  case (Cons kv vals)
  obtain k v where kv: "kv = (k, v)" by (cases kv)
  show ?case
  proof (cases "deepArrayEqual v (getProp c k)")
    case True
    then show ?thesis using Cons.IH kv by simp
  next
    case False
    then show ?thesis using Cons.IH kv by (auto simp: Let_def)
  qed
qed

lemma updateCache_loop_cache_other:
  "k \<notin> set (map fst vals) \<Longrightarrow> fst (snd (updateCache_loop vals ov c ch old)) k = c k"
  by (induction vals arbitrary: ov c ch old) (auto simp: Let_def)

lemma updateCache_loop_cache_settled:
  "distinct (map fst vals) \<Longrightarrow> (k, v) \<in> set vals \<Longrightarrow>
   deepArrayEqual v (getProp (fst (snd (updateCache_loop vals ov c ch old))) k)"
proof (induction vals arbitrary: ov c ch old)
  case Nil
  then show ?case by simp
next
  case (Cons kv vals)
  obtain k' v' where kv: "kv = (k', v')" by (cases kv)
  show ?case
  proof (cases "(k, v) = (k', v')")
    case True
    then have notin: "k \<notin> set (map fst vals)" using Cons.prems kv by auto
    show ?thesis
      using True kv updateCache_loop_cache_other [OF notin]
      by (auto simp: getProp_def deepArrayEqual_refl Let_def)
  next
    case False
    then have "(k, v) \<in> set vals" "distinct (map fst vals)" using Cons.prems kv by auto
    then show ?thesis using Cons.IH kv by (auto simp: Let_def)
  qed
qed

text \<open>The components of the result of \<open>updateCache\<close>, in terms of the loop.\<close>

lemma updateCache_loop_result:
  assumes "updateCache_loop vals
             (if length (stateStack st) > 0 then Some (last (stateStack st)) else None)
             (cache st) False Undefined = (ov', c', ch, old)"
  shows "updateCache st vals =
           (st\<lparr>stateStack := (case ov' of None \<Rightarrow> stateStack st
                                | Some frame \<Rightarrow> butlast (stateStack st) @ [frame]),
               cache := c'\<rparr>, ch, old)"
  using assms by (simp add: updateCache_def Let_def)

lemma updateCache_changed:
  "fst (snd (updateCache st vals)) =
     (\<exists>(k, v)\<in>set vals. \<not> deepArrayEqual v (getProp (cache st) k))"
proof -
  let ?ov = "if length (stateStack st) > 0 then Some (last (stateStack st)) else None"
  obtain ov' c' ch old where
      loop: "updateCache_loop vals ?ov (cache st) False Undefined = (ov', c', ch, old)"
    by (cases "updateCache_loop vals ?ov (cache st) False Undefined") auto
  have "ch = (\<exists>(k, v)\<in>set vals. \<not> deepArrayEqual v (getProp (cache st) k))"
    using updateCache_loop_changed [of vals ?ov "cache st" False Undefined] loop by simp
  then show ?thesis
    using updateCache_loop_result [OF loop] by simp
qed

lemma updateCache_cache_settled:
  assumes "distinct (map fst vals)" and "(k, v) \<in> set vals"
  shows "deepArrayEqual v (getProp (cache (fst (updateCache st vals))) k)"
proof -
  let ?ov = "if length (stateStack st) > 0 then Some (last (stateStack st)) else None"
  obtain ov' c' ch old where
      loop: "updateCache_loop vals ?ov (cache st) False Undefined = (ov', c', ch, old)"
    by (cases "updateCache_loop vals ?ov (cache st) False Undefined") auto
  have "deepArrayEqual v (getProp c' k)"
    using updateCache_loop_cache_settled [OF assms, of ?ov "cache st" False Undefined] loop
    by simp
  then show ?thesis
    using updateCache_loop_result [OF loop] by simp
qed

lemma updateCache_enable: "enable (fst (updateCache st vals)) = enable st"
  by (simp add: updateCache_def Let_def split: prod.splits)

lemma updateCache_program: "program (fst (updateCache st vals)) = program st"
  by (simp add: updateCache_def Let_def split: prod.splits)

section \<open>Hooked setters\<close>

lemma setter_elided:
  assumes "state gl = Some st"
    and "\<forall>(k, v)\<in>set (setter args). deepArrayEqual v (getProp (cache st) k)"
  shows "invoke E (SetterSpy setter orig) args gl = Inr (Undefined, gl)"
  using assms by (simp add: updateCache_same)

lemma setter_first_call:
  assumes "state gl = Some st"
  shows "invoke E (SetterSpy setter (Native f)) args gl =
     Inr (snd (snd (updateCache st (setter args))),
          gl\<lparr>state := Some (fst (updateCache st (setter args))),
             trace := trace gl @
               (if fst (snd (updateCache st (setter args))) then [NativeCall f args] else [])\<rparr>)"
  using assms by (cases "updateCache st (setter args)") simp

lemma run_replicate_fixed:
  "invoke E m args gl = Inr (r, gl) \<Longrightarrow> run E (replicate n (Call m args)) gl = Inr gl"
  by (induction n) simp_all

text \<open>
  C1, as amended. A call of a hooked setter whose values are deeply equal to the
  cached ones (the same elements in another container included) does not reach the
  original function and changes nothing. Calling a setter again and again with the same
  arguments reaches the original function at most once in total: once if the first call
  changed a cached value, and not at all if the first call was itself elided.
\<close>

theorem setter_repeated:
  assumes st: "state gl = Some st"
  shows "((\<forall>(k, v)\<in>set (setter args'). deepArrayEqual v (getProp (cache st) k)) \<longrightarrow>
            invoke E (SetterSpy setter original) args' gl = Inr (Undefined, gl)) \<and>
         (distinct (map fst (setter args)) \<longrightarrow>
            map_sum id trace
              (run E (replicate (Suc n) (Call (SetterSpy setter (Native f)) args)) gl) =
              Inr (trace gl @
                 (if (\<exists>(k, v)\<in>set (setter args). \<not> deepArrayEqual v (getProp (cache st) k))
                  then [NativeCall f args] else [])))"
proof (intro conjI impI)
  assume "\<forall>(k, v)\<in>set (setter args'). deepArrayEqual v (getProp (cache st) k)"
  then show "invoke E (SetterSpy setter original) args' gl = Inr (Undefined, gl)"
    by (rule setter_elided [OF st])
next
  assume dist: "distinct (map fst (setter args))"
  let ?m = "SetterSpy setter (Native f)"
  let ?u = "updateCache st (setter args)"
  let ?gl1 = "gl\<lparr>state := Some (fst ?u),
             trace := trace gl @ (if fst (snd ?u) then [NativeCall f args] else [])\<rparr>"
  have first: "invoke E ?m args gl = Inr (snd (snd ?u), ?gl1)"
    by (rule setter_first_call [OF st])
  have st1: "state ?gl1 = Some (fst ?u)" by simp
  have "\<forall>(k, v)\<in>set (setter args). deepArrayEqual v (getProp (cache (fst ?u)) k)"
    using updateCache_cache_settled [OF dist] by auto
  then have "invoke E ?m args ?gl1 = Inr (Undefined, ?gl1)"
    by (rule setter_elided [OF st1])
  then have "run E (replicate n (Call ?m args)) ?gl1 = Inr ?gl1"
    by (rule run_replicate_fixed)
  then have "run E (replicate (Suc n) (Call ?m args)) gl = Inr ?gl1"
    using first by simp
  moreover have "trace ?gl1 = trace gl @
                 (if (\<exists>(k, v)\<in>set (setter args). \<not> deepArrayEqual v (getProp (cache st) k))
                  then [NativeCall f args] else [])"
    using updateCache_changed [of st "setter args"] by simp
  ultimately show "map_sum id trace (run E (replicate (Suc n) (Call ?m args)) gl) =
              Inr (trace gl @
                 (if (\<exists>(k, v)\<in>set (setter args). \<not> deepArrayEqual v (getProp (cache st) k))
                  then [NativeCall f args] else []))"
    by simp
qed

text \<open>
  On the example context, \<^verbatim>\<open>viewport(0, 0, 300, 150)\<close> builds a new array equal to the
  cached default and is elided, and four calls of \<^verbatim>\<open>enable(DEPTH_TEST)\<close> reach the
  original function once.
\<close>

theorem setter_repeated_witness:
  "invoke demo_env (SetterSpy viewport_adapter (Native ''viewport''))
       [Number 0, Number 0, Number 300, Number 150] (demo_tracked demo_state)
     = Inr (Undefined, demo_tracked demo_state) \<and>
   map_sum id trace
     (run demo_env
        (replicate (Suc 3) (Call (SetterSpy enable_adapter (Native ''enable'')) [Number 2929]))
        (demo_tracked demo_state))
     = Inr [NativeCall ''enable'' [Number 2929]]"
proof -
  have st: "state (demo_tracked demo_state) = Some demo_state"
    by (simp add: demo_tracked_def)
  have eq: "\<forall>(k, v)\<in>set (viewport_adapter [Number 0, Number 0, Number 300, Number 150]).
              deepArrayEqual v (getProp (cache demo_state) k)"
    by (simp add: viewport_adapter_def demo_state_def getProp_def)
  have dist: "distinct (map fst (enable_adapter [Number 2929]))"
    by (simp add: enable_adapter_def)
  have ch: "\<exists>(k, v)\<in>set (enable_adapter [Number 2929]).
              \<not> deepArrayEqual v (getProp (cache demo_state) k)"
    by (simp add: enable_adapter_def demo_state_def getProp_def arg0_def)
  have tr: "trace (demo_tracked demo_state) = []"
    by (simp add: demo_tracked_def)
  show ?thesis
    using setter_repeated [OF st, where setter = viewport_adapter
          and args' = "[Number 0, Number 0, Number 300, Number 150]" and E = demo_env
          and original = "Native ''viewport''"]
      setter_repeated [OF st, where setter = enable_adapter and args = "[Number 2929]"
          and E = demo_env and f = "''enable''" and n = 3]
      eq dist ch tr
    by simp
qed

text \<open>
  The claim as stated, exactly one underlying call in total, fails when the first call
  already agrees with the cache: \<^verbatim>\<open>disable(DEPTH_TEST)\<close> twice on a freshly tracked
  context, where the default of \<^verbatim>\<open>DEPTH_TEST\<close> is \<^verbatim>\<open>false\<close>, reaches the original
  function not once but never.
\<close>

theorem setter_repeated_counterexample:
  "map_sum id trace
     (run demo_env (replicate (Suc (Suc 0)) (Call demo_disable [Number 2929]))
        (demo_tracked demo_state))
   = Inr []"
  by (simp add: demo_disable_def disable_adapter_def demo_tracked_def demo_state_def
      updateCache_def arg0_def getProp_def)

section \<open>Scopes\<close>

lemma updateCache_single:
  "updateCache st [(k, v)] =
     (if deepArrayEqual v (getProp (cache st) k) then (st, False, Undefined)
      else (st\<lparr>stateStack :=
                 (if stateStack st = [] then []
                  else butlast (stateStack st) @
                    [if k \<in> set (map fst (last (stateStack st))) then last (stateStack st)
                     else last (stateStack st) @ [(k, getProp (cache st) k)]]),
               cache := (cache st)(k \<mapsto> v)\<rparr>, True, getProp (cache st) k))"
  by (simp add: updateCache_def Let_def)

lemma updateCache_loop_frame_fixed:
  "set (map fst vals) \<subseteq> set (map fst frame) \<Longrightarrow>
   fst (updateCache_loop vals (Some frame) c ch old) = Some frame"
proof (induction vals arbitrary: c ch old)
  case Nil
  then show ?case by simp
next
  case (Cons kv vals)
  obtain k v where kv: "kv = (k, v)" by (cases kv)
  have "k \<in> set (map fst frame)" and "set (map fst vals) \<subseteq> set (map fst frame)"
    using Cons.prems kv by auto
  then show ?case
    using Cons.IH kv by (simp add: Let_def)
qed

lemma updateCache_top_frame:
  assumes "stateStack st \<noteq> []"
  shows "stateStack (fst (updateCache st (last (stateStack st)))) = stateStack st"
proof -
  let ?f = "last (stateStack st)"
  obtain ov' c' ch old where
      loop: "updateCache_loop ?f (if length (stateStack st) > 0 then Some ?f else None)
                   (cache st) False Undefined = (ov', c', ch, old)"
    by (cases "updateCache_loop ?f (if length (stateStack st) > 0 then Some ?f else None)
                   (cache st) False Undefined") auto
  have "ov' = Some ?f"
    using updateCache_loop_frame_fixed [of ?f ?f "cache st" False Undefined] loop assms by simp
  then show ?thesis
    using updateCache_loop_result [OF loop] assms by simp
qed

lemma pop_result:
  assumes "state gl = Some st" and "stateStack st \<noteq> []"
  shows "pop gl =
     Inr (gl\<lparr>state := Some ((fst (updateCache st (last (stateStack st))))
                          \<lparr>stateStack := butlast (stateStack st)\<rparr>),
             trace := trace gl @
               (if fst (snd (updateCache st (last (stateStack st))))
                then [Restore (last (stateStack st))] else [])\<rparr>)"
  using assms updateCache_top_frame [OF assms(2)]
  by (cases "updateCache st (last (stateStack st))")
     (auto simp: pop_def assert_def setParameters_def Let_def)

lemma invoke_single_setter:
  assumes "state gl = Some st" and "setter args = [(k, v)]"
  shows "invoke E (SetterSpy setter (Native f)) args gl =
     (if deepArrayEqual v (getProp (cache st) k) then Inr (Undefined, gl)
      else Inr (getProp (cache st) k,
        gl\<lparr>state := Some (st\<lparr>stateStack :=
                 (if stateStack st = [] then []
                  else butlast (stateStack st) @
                    [if k \<in> set (map fst (last (stateStack st))) then last (stateStack st)
                     else last (stateStack st) @ [(k, getProp (cache st) k)]]),
               cache := (cache st)(k \<mapsto> v)\<rparr>),
           trace := trace gl @ [NativeCall f args]\<rparr>))"
  using assms by (simp add: updateCache_single)

lemma getProp_upd_same: "getProp (c(k \<mapsto> v)) k = v"
  by (simp add: getProp_def)

lemma getProp_upd_other: "k' \<noteq> k \<Longrightarrow> getProp (c(k \<mapsto> v)) k' = getProp c k'"
  by (simp add: getProp_def)

lemma pop_empty_frame:
  assumes "state gl = Some st" and "stateStack st = S @ [[]]"
  shows "pop gl = Inr (gl\<lparr>state := Some (st\<lparr>stateStack := S\<rparr>)\<rparr>)"
  using assms by (simp add: pop_def assert_def setParameters_def updateCache_def)

lemma pop_single_frame:
  assumes "state gl = Some st" and "stateStack st = S @ [[(k, v)]]"
  shows "pop gl =
     (if deepArrayEqual v (getProp (cache st) k)
      then Inr (gl\<lparr>state := Some (st\<lparr>stateStack := S\<rparr>)\<rparr>)
      else Inr (gl\<lparr>state := Some (st\<lparr>stateStack := S, cache := (cache st)(k \<mapsto> v)\<rparr>),
                  trace := trace gl @ [Restore [(k, v)]]\<rparr>))"
  using assms by (simp add: pop_def assert_def setParameters_def updateCache_single)

lemma scope_run2:
  assumes "state gl = Some st"
    and "invoke E m1 a1 (gl\<lparr>state := Some (push st)\<rparr>) = Inr (r1, gl2)"
    and "invoke E m2 a2 gl2 = Inr (r2, gl3)"
    and "pop gl3 = Inr gl4"
  shows "run E [Push, Call m1 a1, Call m2 a2] gl = Inr gl3"
    and "run E [Push, Call m1 a1, Call m2 a2, Pop] gl = Inr gl4"
  using assms by simp_all

lemma updateCache_loop_distinct:
  "distinct (map fst frame) \<Longrightarrow>
   \<exists>frame'. fst (updateCache_loop vals (Some frame) c ch old) = Some frame' \<and>
     distinct (map fst frame')"
proof (induction vals arbitrary: frame c ch old)
  case Nil
  then show ?case by simp
next
  case (Cons kv vals)
  obtain k v where kv: "kv = (k, v)" by (cases kv)
  show ?case
  proof (cases "\<not> deepArrayEqual v (getProp c k) \<and> k \<notin> set (map fst frame)")
    case True
    then have "distinct (map fst (frame @ [(k, getProp c k)]))"
      using Cons.prems by simp
    from Cons.IH [OF this] show ?thesis
      using True kv by (simp add: Let_def)
  next
    case False
    then show ?thesis
      using Cons.IH [OF Cons.prems] kv by (auto simp: Let_def)
  qed
qed

lemma updateCache_loop_no_frame: "fst (updateCache_loop vals None c ch old) = None"
  by (induction vals arbitrary: c ch old) (auto simp: Let_def)

lemma updateCache_frames_distinct:
  assumes "\<forall>frame\<in>set (stateStack st). distinct (map fst frame)"
  shows "\<forall>frame\<in>set (stateStack (fst (updateCache st vals))). distinct (map fst frame)"
proof (cases "stateStack st = []")
  case True
  obtain ov' c' ch old where loop: "updateCache_loop vals
      (if length (stateStack st) > 0 then Some (last (stateStack st)) else None)
      (cache st) False Undefined = (ov', c', ch, old)"
    by (cases "updateCache_loop vals
      (if length (stateStack st) > 0 then Some (last (stateStack st)) else None)
      (cache st) False Undefined") auto
  then have "ov' = None"
    using updateCache_loop_no_frame [of vals "cache st" False Undefined] True by simp
  then show ?thesis
    using updateCache_loop_result [OF loop] True by simp
next
  case False
  let ?f = "last (stateStack st)"
  have "distinct (map fst ?f)" using assms False by simp
  from updateCache_loop_distinct [OF this, of vals "cache st" False Undefined]
  obtain frame' where f': "fst (updateCache_loop vals (Some ?f) (cache st) False Undefined) = Some frame'"
    and d: "distinct (map fst frame')" by blast
  obtain c' ch old where loop: "updateCache_loop vals (if length (stateStack st) > 0 then Some ?f else None)
      (cache st) False Undefined = (Some frame', c', ch, old)"
    using f' False by (cases "updateCache_loop vals (Some ?f) (cache st) False Undefined") auto
  have "stateStack (fst (updateCache st vals)) = butlast (stateStack st) @ [frame']"
    using updateCache_loop_result [OF loop] by simp
  then show ?thesis
    using assms d by (auto dest: in_set_butlastD)
qed

text \<open>
  C4. \<^verbatim>\<open>push()\<close> followed at once by \<^verbatim>\<open>pop()\<close> gives back the very same context:
  the cache, the stack, the installed functions and the trace of underlying calls are
  those from before, so the restore of the empty frame issues no underlying call. The
  public \<^verbatim>\<open>pushContextState\<close> and \<^verbatim>\<open>popContextState\<close> do the same on a tracked
  context.
\<close>

theorem push_pop_identity:
  assumes "state gl = Some st"
  shows "run E [Push, Pop] gl = Inr gl \<and>
         pushContextState E gl = Inr (gl\<lparr>state := Some (push st)\<rparr>) \<and>
         popContextState (gl\<lparr>state := Some (push st)\<rparr>) = Inr gl"
  using assms
  by (simp add: pushContextState_def popContextState_def assert_def pop_def push_def
      setParameters_def updateCache_def)

theorem push_pop_identity_witness:
  "state (demo_tracked demo_state) = Some demo_state \<and>
   run demo_env [Push, Pop] (demo_tracked demo_state) = Inr (demo_tracked demo_state) \<and>
   pushContextState demo_env (demo_tracked demo_state)
     = Inr ((demo_tracked demo_state)\<lparr>state := Some (push demo_state)\<rparr>) \<and>
   popContextState ((demo_tracked demo_state)\<lparr>state := Some (push demo_state)\<rparr>)
     = Inr (demo_tracked demo_state)"
proof -
  have st: "state (demo_tracked demo_state) = Some demo_state"
    by (simp add: demo_tracked_def)
  show ?thesis
    using st push_pop_identity [OF st, of demo_env] by (rule conjI)
qed

lemma scope_first_write_exact:
  assumes st: "state gl = Some st"
    and a1: "setter1 args1 = [(A, v1)]" and a2: "setter2 args2 = [(A, v2)]"
    and v0: "v0 = getProp (cache st) A"
    and c1: "c1 = (if deepArrayEqual v1 v0 then v0 else v1)"
    and c2: "c2 = (if deepArrayEqual v2 c1 then c1 else v2)"
    and fr: "frame = (if deepArrayEqual v1 v0 \<and> deepArrayEqual v2 v0 then [] else [(A, v0)])"
  shows "run E [Push, Call (SetterSpy setter1 (Native f1)) args1,
                Call (SetterSpy setter2 (Native f2)) args2] gl =
           Inr (gl\<lparr>state := Some (st\<lparr>stateStack := stateStack st @ [frame],
                                    cache := (if frame = [] then cache st
                                              else (cache st)(A \<mapsto> c2))\<rparr>),
                   trace := trace gl @
                     (if deepArrayEqual v1 v0 then [] else [NativeCall f1 args1]) @
                     (if deepArrayEqual v2 c1 then [] else [NativeCall f2 args2])\<rparr>) \<and>
         run E [Push, Call (SetterSpy setter1 (Native f1)) args1,
                Call (SetterSpy setter2 (Native f2)) args2, Pop] gl =
           Inr (gl\<lparr>state := Some (st\<lparr>cache := (if frame = [] then cache st
                                              else if deepArrayEqual v0 c2
                                                then (cache st)(A \<mapsto> c2)
                                                else (cache st)(A \<mapsto> v0))\<rparr>),
                   trace := trace gl @
                     (if deepArrayEqual v1 v0 then [] else [NativeCall f1 args1]) @
                     (if deepArrayEqual v2 c1 then [] else [NativeCall f2 args2]) @
                     (if frame = [] \<or> deepArrayEqual v0 c2 then []
                      else [Restore [(A, v0)]])\<rparr>)"
proof -
  let ?m1 = "SetterSpy setter1 (Native f1)"
  let ?m2 = "SetterSpy setter2 (Native f2)"
  let ?gl1 = "gl\<lparr>state := Some (push st)\<rparr>"
  have s1: "state ?gl1 = Some (push st)" by simp
  have pst: "cache (push st) = cache st" "stateStack (push st) = stateStack st @ [[]]"
    by (simp_all add: push_def)
  have glst: "gl\<lparr>state := Some st\<rparr> = gl"
    using st by simp
  note i1 = invoke_single_setter [where setter = setter1 and args = args1 and E = E and f = f1,
      OF s1 a1]
  let ?s = "\<lambda>v. (push st)\<lparr>stateStack := stateStack st @ [[(A, v0)]], cache := (cache st)(A \<mapsto> v)\<rparr>"
  consider (none) "deepArrayEqual v1 v0" "deepArrayEqual v2 v0"
    | (second) "deepArrayEqual v1 v0" "\<not> deepArrayEqual v2 v0"
    | (first) "\<not> deepArrayEqual v1 v0" "deepArrayEqual v2 v1"
    | (both) "\<not> deepArrayEqual v1 v0" "\<not> deepArrayEqual v2 v1"
    by blast
  then show ?thesis
  proof cases
    case none
    have vals: "c1 = v0" "c2 = v0" "frame = []"
      using none c1 c2 fr by simp_all
    have r1: "invoke E ?m1 args1 ?gl1 = Inr (Undefined, ?gl1)"
      using i1 none pst v0 by simp
    have r2: "invoke E ?m2 args2 ?gl1 = Inr (Undefined, ?gl1)"
      using invoke_single_setter [where setter = setter2 and args = args2 and E = E and f = f2,
          OF s1 a2] none pst v0 by simp
    have p: "pop ?gl1 = Inr gl"
      using pop_empty_frame [OF s1 pst(2)] st by (simp add: push_def)
    show ?thesis
      by (simp only: scope_run2 [OF st r1 r2 p]) (simp add: vals none push_def glst)
  next
    case second
    have vals: "c1 = v0" "c2 = v2" "frame = [(A, v0)]"
      using second c1 c2 fr by simp_all
    have n02: "\<not> deepArrayEqual v0 v2"
      using second deepArrayEqual_sym [of v0 v2] by simp
    let ?gl3 = "gl\<lparr>state := Some (?s v2), trace := trace gl @ [NativeCall f2 args2]\<rparr>"
    let ?s4 = "st\<lparr>cache := (cache st)(A \<mapsto> v2, A \<mapsto> v0)\<rparr>"
    let ?gl4 = "gl\<lparr>state := Some ?s4,
                   trace := trace gl @ [NativeCall f2 args2, Restore [(A, v0)]]\<rparr>"
    have r1: "invoke E ?m1 args1 ?gl1 = Inr (Undefined, ?gl1)"
      using i1 second pst v0 by simp
    have r2: "invoke E ?m2 args2 ?gl1 = Inr (v0, ?gl3)"
      using invoke_single_setter [where setter = setter2 and args = args2 and E = E and f = f2,
          OF s1 a2] second pst v0 by simp
    have s3: "state ?gl3 = Some (?s v2)" by simp
    have p: "pop ?gl3 = Inr ?gl4"
      using pop_single_frame [OF s3, of "stateStack st" A v0] n02
      by (simp add: getProp_upd_same push_def)
    show ?thesis
      by (simp only: scope_run2 [OF st r1 r2 p]) (simp add: vals second n02 push_def)
  next
    case first
    have vals: "c1 = v1" "c2 = v1" "frame = [(A, v0)]"
      using first c1 c2 fr by simp_all
    have n01: "\<not> deepArrayEqual v0 v1"
      using first deepArrayEqual_sym [of v0 v1] by simp
    let ?gl3 = "gl\<lparr>state := Some (?s v1), trace := trace gl @ [NativeCall f1 args1]\<rparr>"
    let ?s4 = "st\<lparr>cache := (cache st)(A \<mapsto> v1, A \<mapsto> v0)\<rparr>"
    let ?gl4 = "gl\<lparr>state := Some ?s4,
                   trace := trace gl @ [NativeCall f1 args1, Restore [(A, v0)]]\<rparr>"
    have r1: "invoke E ?m1 args1 ?gl1 = Inr (v0, ?gl3)"
      using i1 first pst v0 by simp
    have s3: "state ?gl3 = Some (?s v1)" by simp
    have r2: "invoke E ?m2 args2 ?gl3 = Inr (Undefined, ?gl3)"
      using invoke_single_setter [where setter = setter2 and args = args2 and E = E and f = f2,
          OF s3 a2] first by (simp add: getProp_upd_same)
    have p: "pop ?gl3 = Inr ?gl4"
      using pop_single_frame [OF s3, of "stateStack st" A v0] n01
      by (simp add: getProp_upd_same push_def)
    show ?thesis
      by (simp only: scope_run2 [OF st r1 r2 p]) (simp add: vals first n01 push_def)
  next
    case both
    have vals: "c1 = v1" "c2 = v2" "frame = [(A, v0)]"
      using both c1 c2 fr by simp_all
    let ?gl2 = "gl\<lparr>state := Some (?s v1), trace := trace gl @ [NativeCall f1 args1]\<rparr>"
    let ?s3 = "(push st)\<lparr>stateStack := stateStack st @ [[(A, v0)]],
                 cache := (cache st)(A \<mapsto> v1, A \<mapsto> v2)\<rparr>"
    let ?gl3 = "gl\<lparr>state := Some ?s3,
                   trace := trace gl @ [NativeCall f1 args1, NativeCall f2 args2]\<rparr>"
    have r1: "invoke E ?m1 args1 ?gl1 = Inr (v0, ?gl2)"
      using i1 both pst v0 by simp
    have s2: "state ?gl2 = Some (?s v1)" by simp
    have r2: "invoke E ?m2 args2 ?gl2 = Inr (v1, ?gl3)"
      using invoke_single_setter [where setter = setter2 and args = args2 and E = E and f = f2,
          OF s2 a2] both by (simp add: getProp_upd_same)
    have s3: "state ?gl3 = Some ?s3" by simp
    show ?thesis
    proof (cases "deepArrayEqual v0 v2")
      case True
      let ?s4 = "st\<lparr>cache := (cache st)(A \<mapsto> v1, A \<mapsto> v2)\<rparr>"
      let ?gl4 = "gl\<lparr>state := Some ?s4,
                     trace := trace gl @ [NativeCall f1 args1, NativeCall f2 args2]\<rparr>"
      have p: "pop ?gl3 = Inr ?gl4"
        using pop_single_frame [OF s3, of "stateStack st" A v0] True
        by (simp add: getProp_upd_same push_def)
      show ?thesis
        by (simp only: scope_run2 [OF st r1 r2 p]) (simp add: vals both True push_def)
    next
      case False
      let ?s4 = "st\<lparr>cache := (cache st)(A \<mapsto> v1, A \<mapsto> v2, A \<mapsto> v0)\<rparr>"
      let ?gl4 = "gl\<lparr>state := Some ?s4,
                     trace := trace gl @
                       [NativeCall f1 args1, NativeCall f2 args2, Restore [(A, v0)]]\<rparr>"
      have p: "pop ?gl3 = Inr ?gl4"
        using pop_single_frame [OF s3, of "stateStack st" A v0] False
        by (simp add: getProp_upd_same push_def)
      show ?thesis
        by (simp only: scope_run2 [OF st r1 r2 p]) (simp add: vals both False push_def)
    qed
  qed
qed

text \<open>
  C2. Inside one scope the frame keeps the value an identifier had before its first
  change. Let \<open>v0\<close> be the value cached for \<open>A\<close> at the push, \<open>c1\<close> the value cached
  after the set to \<open>v1\<close> (\<open>v1\<close>, or still \<open>v0\<close> when \<open>v1\<close> was deeply equal to it) and
  \<open>c2\<close> the value cached after the set to \<open>v2\<close>. After \<^verbatim>\<open>push()\<close> and the two sets the
  context is exactly this: the new frame is \<open>[(A, v0)]\<close> as soon as one of the two sets
  changed the value (and empty only when neither did), it never holds \<open>v1\<close>, the cache
  holds \<open>c2\<close> for \<open>A\<close>, and each set that changed the value has reached its original
  function. After \<^verbatim>\<open>pop()\<close> the frame is gone, the outer frames and the other identifiers
  are as before, and the cache holds \<open>v0\<close> for \<open>A\<close>, written back through the underlying
  context, unless the value \<open>c2\<close> it held was already deeply equal to \<open>v0\<close>: so the
  cached value is \<open>v0\<close> in the sense of the deep equality that the cache compares with,
  and \<open>v0\<close> itself when \<open>v2\<close> is not deeply equal to \<open>v0\<close>. In general the update
  routine never gives a frame two entries for one identifier.
\<close>

theorem first_write_wins:
  assumes st: "state gl = Some st"
    and a1: "setter1 args1 = [(A, v1)]" and a2: "setter2 args2 = [(A, v2)]"
    and v0: "v0 = getProp (cache st) A"
    and c1: "c1 = (if deepArrayEqual v1 v0 then v0 else v1)"
    and c2: "c2 = (if deepArrayEqual v2 c1 then c1 else v2)"
    and fr: "frame = (if deepArrayEqual v1 v0 \<and> deepArrayEqual v2 v0 then [] else [(A, v0)])"
    and fin: "final = (if frame = [] then cache st
                       else if deepArrayEqual v0 c2 then (cache st)(A \<mapsto> c2)
                       else (cache st)(A \<mapsto> v0))"
  shows "run E [Push, Call (SetterSpy setter1 (Native f1)) args1,
                Call (SetterSpy setter2 (Native f2)) args2] gl =
           Inr (gl\<lparr>state := Some (st\<lparr>stateStack := stateStack st @ [frame],
                                    cache := (if frame = [] then cache st
                                              else (cache st)(A \<mapsto> c2))\<rparr>),
                   trace := trace gl @
                     (if deepArrayEqual v1 v0 then [] else [NativeCall f1 args1]) @
                     (if deepArrayEqual v2 c1 then [] else [NativeCall f2 args2])\<rparr>) \<and>
         run E [Push, Call (SetterSpy setter1 (Native f1)) args1,
                Call (SetterSpy setter2 (Native f2)) args2, Pop] gl =
           Inr (gl\<lparr>state := Some (st\<lparr>cache := final\<rparr>),
                   trace := trace gl @
                     (if deepArrayEqual v1 v0 then [] else [NativeCall f1 args1]) @
                     (if deepArrayEqual v2 c1 then [] else [NativeCall f2 args2]) @
                     (if frame = [] \<or> deepArrayEqual v0 c2 then []
                      else [Restore [(A, v0)]])\<rparr>) \<and>
         (\<not> deepArrayEqual v1 v0 \<longrightarrow> frame = [(A, v0)] \<and> c1 = v1) \<and>
         (\<not> deepArrayEqual v1 v0 \<and> \<not> deepArrayEqual v2 v1 \<longrightarrow> c2 = v2) \<and>
         deepArrayEqual v0 (getProp final A) \<and>
         (\<not> deepArrayEqual v0 v2 \<longrightarrow> getProp final A = v0) \<and>
         (\<forall>k. k \<noteq> A \<longrightarrow> final k = cache st k) \<and>
         (\<forall>s vals.
            (\<forall>frame\<in>set (stateStack s). distinct (map fst frame)) \<longrightarrow>
            (\<forall>frame\<in>set (stateStack (fst (updateCache s vals))). distinct (map fst frame)))"
proof (intro conjI)
  show "run E [Push, Call (SetterSpy setter1 (Native f1)) args1,
                Call (SetterSpy setter2 (Native f2)) args2] gl =
           Inr (gl\<lparr>state := Some (st\<lparr>stateStack := stateStack st @ [frame],
                                    cache := (if frame = [] then cache st
                                              else (cache st)(A \<mapsto> c2))\<rparr>),
                   trace := trace gl @
                     (if deepArrayEqual v1 v0 then [] else [NativeCall f1 args1]) @
                     (if deepArrayEqual v2 c1 then [] else [NativeCall f2 args2])\<rparr>)"
    using scope_first_write_exact [where ?setter1.0 = setter1 and ?setter2.0 = setter2,
        OF st a1 a2 v0 c1 c2 fr] by blast
next
  show "run E [Push, Call (SetterSpy setter1 (Native f1)) args1,
                Call (SetterSpy setter2 (Native f2)) args2, Pop] gl =
           Inr (gl\<lparr>state := Some (st\<lparr>cache := final\<rparr>),
                   trace := trace gl @
                     (if deepArrayEqual v1 v0 then [] else [NativeCall f1 args1]) @
                     (if deepArrayEqual v2 c1 then [] else [NativeCall f2 args2]) @
                     (if frame = [] \<or> deepArrayEqual v0 c2 then []
                      else [Restore [(A, v0)]])\<rparr>)"
    unfolding fin
    using scope_first_write_exact [where ?setter1.0 = setter1 and ?setter2.0 = setter2,
        OF st a1 a2 v0 c1 c2 fr] by blast
next
  show "\<not> deepArrayEqual v1 v0 \<longrightarrow> frame = [(A, v0)] \<and> c1 = v1"
    using fr c1 by simp
next
  show "\<not> deepArrayEqual v1 v0 \<and> \<not> deepArrayEqual v2 v1 \<longrightarrow> c2 = v2"
    using c1 c2 by simp
next
  have g0: "getProp (cache st) A = v0" using v0 by simp
  show "deepArrayEqual v0 (getProp final A)"
    unfolding fin by (simp add: g0 getProp_upd_same deepArrayEqual_refl)
next
  have g0: "getProp (cache st) A = v0" using v0 by simp
  show "\<not> deepArrayEqual v0 v2 \<longrightarrow> getProp final A = v0"
    unfolding fin c2 c1 fr
    using deepArrayEqual_sym [of v0 v1]
    by (auto simp: g0 getProp_upd_same)
next
  show "\<forall>k. k \<noteq> A \<longrightarrow> final k = cache st k"
    unfolding fin by simp
next
  show "\<forall>s vals.
            (\<forall>frame\<in>set (stateStack s). distinct (map fst frame)) \<longrightarrow>
            (\<forall>frame\<in>set (stateStack (fst (updateCache s vals))). distinct (map fst frame))"
    using updateCache_frames_distinct by blast
qed

text \<open>
  On the example context: the viewport is set twice inside a scope; the frame records
  the default once, and the pop writes the default back.
\<close>

theorem first_write_wins_witness:
  "state (demo_tracked demo_state) = Some demo_state \<and>
   viewport_adapter [Number 0, Number 0, Number 1, Number 1] = [(Number 2978, Array 1 [Number 0, Number 0, Number 1, Number 1])] \<and>
   viewport_adapter [Number 0, Number 0, Number 2, Number 2] = [(Number 2978, Array 1 [Number 0, Number 0, Number 2, Number 2])] \<and>
   Array 0 [Number 0, Number 0, Number 300, Number 150] = getProp (cache demo_state) (Number 2978) \<and>
   run demo_env [Push, Call (SetterSpy viewport_adapter (Native ''viewport'')) [Number 0, Number 0, Number 1, Number 1],
                 Call (SetterSpy viewport_adapter (Native ''viewport'')) [Number 0, Number 0, Number 2, Number 2]]
       (demo_tracked demo_state) =
     Inr ((demo_tracked demo_state)
            \<lparr>state := Some (demo_state\<lparr>stateStack := [[(Number 2978, Array 0 [Number 0, Number 0, Number 300, Number 150])]],
                                     cache := (cache demo_state)(Number 2978 \<mapsto> Array 1 [Number 0, Number 0, Number 2, Number 2])\<rparr>),
             trace := [NativeCall ''viewport'' [Number 0, Number 0, Number 1, Number 1], NativeCall ''viewport'' [Number 0, Number 0, Number 2, Number 2]]\<rparr>) \<and>
   run demo_env [Push, Call (SetterSpy viewport_adapter (Native ''viewport'')) [Number 0, Number 0, Number 1, Number 1],
                 Call (SetterSpy viewport_adapter (Native ''viewport'')) [Number 0, Number 0, Number 2, Number 2], Pop]
       (demo_tracked demo_state) =
     Inr ((demo_tracked demo_state)
            \<lparr>state := Some (demo_state\<lparr>cache := (cache demo_state)(Number 2978 \<mapsto> Array 0 [Number 0, Number 0, Number 300, Number 150])\<rparr>),
             trace := [NativeCall ''viewport'' [Number 0, Number 0, Number 1, Number 1], NativeCall ''viewport'' [Number 0, Number 0, Number 2, Number 2],
                       Restore [(Number 2978, Array 0 [Number 0, Number 0, Number 300, Number 150])]]\<rparr>) \<and>
   list_all distinct (map (map fst) (stateStack demo_scoped)) \<and>
   list_all distinct (map (map fst) (stateStack (fst (updateCache demo_scoped
        [(Number 2929, Boolean False), (Number 2978, Null)]))))"
proof -
  have st: "state (demo_tracked demo_state) = Some demo_state"
    by (simp add: demo_tracked_def)
  have d0: "\<forall>frame\<in>set (stateStack demo_scoped). distinct (map fst frame)"
    by (simp add: demo_scoped_def)
  have a1: "viewport_adapter [Number 0, Number 0, Number 1, Number 1] = [(Number 2978, Array 1 [Number 0, Number 0, Number 1, Number 1])]"
    by (simp add: viewport_adapter_def)
  have a2: "viewport_adapter [Number 0, Number 0, Number 2, Number 2] = [(Number 2978, Array 1 [Number 0, Number 0, Number 2, Number 2])]"
    by (simp add: viewport_adapter_def)
  have v0: "Array 0 [Number 0, Number 0, Number 300, Number 150] = getProp (cache demo_state) (Number 2978)"
    by (simp add: demo_state_def getProp_def)
  have c1: "Array 1 [Number 0, Number 0, Number 1, Number 1] = (if deepArrayEqual (Array 1 [Number 0, Number 0, Number 1, Number 1]) (Array 0 [Number 0, Number 0, Number 300, Number 150]) then Array 0 [Number 0, Number 0, Number 300, Number 150] else Array 1 [Number 0, Number 0, Number 1, Number 1])"
    by simp
  have c2: "Array 1 [Number 0, Number 0, Number 2, Number 2] = (if deepArrayEqual (Array 1 [Number 0, Number 0, Number 2, Number 2]) (Array 1 [Number 0, Number 0, Number 1, Number 1]) then Array 1 [Number 0, Number 0, Number 1, Number 1]
                          else Array 1 [Number 0, Number 0, Number 2, Number 2])"
    by simp
  have fr: "[(Number 2978, Array 0 [Number 0, Number 0, Number 300, Number 150])] =
      (if deepArrayEqual (Array 1 [Number 0, Number 0, Number 1, Number 1]) (Array 0 [Number 0, Number 0, Number 300, Number 150]) \<and> deepArrayEqual (Array 1 [Number 0, Number 0, Number 2, Number 2]) (Array 0 [Number 0, Number 0, Number 300, Number 150]) then []
       else [(Number 2978, Array 0 [Number 0, Number 0, Number 300, Number 150])])"
    by simp
  have fin: "(cache demo_state)(Number 2978 \<mapsto> Array 0 [Number 0, Number 0, Number 300, Number 150]) =
      (if [(Number 2978, Array 0 [Number 0, Number 0, Number 300, Number 150])] = [] then cache demo_state
       else if deepArrayEqual (Array 0 [Number 0, Number 0, Number 300, Number 150]) (Array 1 [Number 0, Number 0, Number 2, Number 2])
         then (cache demo_state)(Number 2978 \<mapsto> Array 1 [Number 0, Number 0, Number 2, Number 2])
         else (cache demo_state)(Number 2978 \<mapsto> Array 0 [Number 0, Number 0, Number 300, Number 150]))"
    by simp
  have s0: "stateStack demo_state = []"
    by (simp add: demo_state_def)
  have t0: "trace (demo_tracked demo_state) = []"
    by (simp add: demo_tracked_def)
  note inst = first_write_wins [where ?setter1.0 = viewport_adapter
      and ?setter2.0 = viewport_adapter and E = demo_env and ?f1.0 = "''viewport''"
      and ?f2.0 = "''viewport''", OF st a1 a2 v0 c1 c2 fr fin]
  have r3: "run demo_env [Push, Call (SetterSpy viewport_adapter (Native ''viewport'')) [Number 0, Number 0, Number 1, Number 1],
                 Call (SetterSpy viewport_adapter (Native ''viewport'')) [Number 0, Number 0, Number 2, Number 2]]
       (demo_tracked demo_state) =
     Inr ((demo_tracked demo_state)
            \<lparr>state := Some (demo_state\<lparr>stateStack := [[(Number 2978, Array 0 [Number 0, Number 0, Number 300, Number 150])]],
                                     cache := (cache demo_state)(Number 2978 \<mapsto> Array 1 [Number 0, Number 0, Number 2, Number 2])\<rparr>),
             trace := [NativeCall ''viewport'' [Number 0, Number 0, Number 1, Number 1], NativeCall ''viewport'' [Number 0, Number 0, Number 2, Number 2]]\<rparr>)"
    using inst by (simp add: s0 t0 del: run.simps invoke.simps)
  have r4: "run demo_env [Push, Call (SetterSpy viewport_adapter (Native ''viewport'')) [Number 0, Number 0, Number 1, Number 1],
                 Call (SetterSpy viewport_adapter (Native ''viewport'')) [Number 0, Number 0, Number 2, Number 2], Pop]
       (demo_tracked demo_state) =
     Inr ((demo_tracked demo_state)
            \<lparr>state := Some (demo_state\<lparr>cache := (cache demo_state)(Number 2978 \<mapsto> Array 0 [Number 0, Number 0, Number 300, Number 150])\<rparr>),
             trace := [NativeCall ''viewport'' [Number 0, Number 0, Number 1, Number 1], NativeCall ''viewport'' [Number 0, Number 0, Number 2, Number 2],
                       Restore [(Number 2978, Array 0 [Number 0, Number 0, Number 300, Number 150])]]\<rparr>)"
    using inst by (simp add: s0 t0 del: run.simps invoke.simps)
  have inv: "\<forall>frame\<in>set (stateStack (fst (updateCache demo_scoped
        [(Number 2929, Boolean False), (Number 2978, Null)]))). distinct (map fst frame)"
    using inst d0 by blast
  show ?thesis
    using st a1 a2 v0 r3 r4 d0 inv
    by (simp add: list_all_iff del: run.simps invoke.simps)
qed

lemma pop_outer_frames:
  assumes "state g = Some s" and "stateStack s \<noteq> []"
  shows "\<exists>g' s'. pop g = Inr g' \<and> state g' = Some s' \<and>
           stateStack s' = butlast (stateStack s)"
  using pop_result [OF assms] by simp

lemma scope_run_nested:
  assumes "state gl = Some st"
    and "invoke E m1 a1 (gl\<lparr>state := Some (push st)\<rparr>) = Inr (r1, gl2)"
    and "state gl2 = Some st2"
    and "invoke E m2 a2 (gl2\<lparr>state := Some (push st2)\<rparr>) = Inr (r2, gl3)"
    and "pop gl3 = Inr gl5"
    and "pop gl5 = Inr gl6"
  shows "run E [Push, Call m1 a1, Push, Call m2 a2, Pop] gl = Inr gl5"
    and "run E [Push, Call m1 a1, Push, Call m2 a2, Pop, Pop] gl = Inr gl6"
  using assms by simp_all

lemma scope_nested:
  assumes st: "state gl = Some st"
    and a1: "setter1 args1 = [(A, v1)]" and a2: "setter2 args2 = [(A, v2)]"
    and c1: "\<not> deepArrayEqual v1 (getProp (cache st) A)"
    and c2: "\<not> deepArrayEqual v2 v1"
  shows "\<exists>gl5 st5 gl6 st6.
     run E [Push, Call (SetterSpy setter1 (Native f1)) args1,
            Push, Call (SetterSpy setter2 (Native f2)) args2, Pop] gl = Inr gl5 \<and>
     state gl5 = Some st5 \<and>
     getProp (cache st5) A = v1 \<and>
     stateStack st5 = stateStack st @ [[(A, getProp (cache st) A)]] \<and>
     run E [Push, Call (SetterSpy setter1 (Native f1)) args1,
            Push, Call (SetterSpy setter2 (Native f2)) args2, Pop, Pop] gl = Inr gl6 \<and>
     state gl6 = Some st6 \<and>
     getProp (cache st6) A = getProp (cache st) A \<and>
     stateStack st6 = stateStack st"
proof -
  let ?v0 = "getProp (cache st) A"
  let ?m1 = "SetterSpy setter1 (Native f1)"
  let ?m2 = "SetterSpy setter2 (Native f2)"
  let ?S = "stateStack st"
  let ?gl1 = "gl\<lparr>state := Some (push st)\<rparr>"
  have s1: "state ?gl1 = Some (push st)" by simp
  have pst: "cache (push st) = cache st" "stateStack (push st) = ?S @ [[]]"
    by (simp_all add: push_def)
  let ?s2 = "st\<lparr>stateStack := ?S @ [[(A, ?v0)]], cache := (cache st)(A \<mapsto> v1)\<rparr>"
  let ?t2 = "trace gl @ [NativeCall f1 args1]"
  let ?gl2 = "gl\<lparr>state := Some ?s2, trace := ?t2\<rparr>"
  have r1: "invoke E ?m1 args1 ?gl1 = Inr (?v0, ?gl2)"
    using invoke_single_setter [where setter = setter1 and args = args1 and E = E and f = f1,
        OF s1 a1] c1 pst by (simp del: invoke.simps add: push_def)
  let ?gl2p = "gl\<lparr>state := Some (push ?s2), trace := ?t2\<rparr>"
  have s2p: "state ?gl2p = Some (push ?s2)" by simp
  let ?s3 = "st\<lparr>stateStack := ?S @ [[(A, ?v0)], [(A, v1)]], cache := (cache st)(A \<mapsto> v2)\<rparr>"
  let ?t3 = "trace gl @ [NativeCall f1 args1, NativeCall f2 args2]"
  let ?gl3 = "gl\<lparr>state := Some ?s3, trace := ?t3\<rparr>"
  have r2: "invoke E ?m2 args2 ?gl2p = Inr (v1, ?gl3)"
    using invoke_single_setter [where setter = setter2 and args = args2 and E = E and f = f2,
        OF s2p a2] c2
    by (simp del: invoke.simps add: push_def getProp_upd_same butlast_append)
  have s3: "state ?gl3 = Some ?s3" by simp
  let ?s5 = "st\<lparr>stateStack := ?S @ [[(A, ?v0)]], cache := (cache st)(A \<mapsto> v1)\<rparr>"
  let ?gl5 = "gl\<lparr>state := Some ?s5, trace := ?t3 @ [Restore [(A, v1)]]\<rparr>"
  have p1: "pop ?gl3 = Inr ?gl5"
    using pop_single_frame [OF s3, of "?S @ [[(A, ?v0)]]" A v1] c2 deepArrayEqual_sym [of v1 v2]
    by (simp add: getProp_upd_same)
  have s5: "state ?gl5 = Some ?s5" by simp
  let ?s6 = "st\<lparr>cache := (cache st)(A \<mapsto> ?v0)\<rparr>"
  let ?gl6 = "gl\<lparr>state := Some ?s6,
                 trace := ?t3 @ [Restore [(A, v1)], Restore [(A, ?v0)]]\<rparr>"
  have p2: "pop ?gl5 = Inr ?gl6"
    using pop_single_frame [OF s5, of ?S A ?v0] c1 deepArrayEqual_sym [of ?v0 v1]
    by (simp add: getProp_upd_same)
  have s2: "state ?gl2 = Some ?s2" by simp
  have eq: "?gl2\<lparr>state := Some (push ?s2)\<rparr> = ?gl2p"
    by (cases gl) simp
  have r2': "invoke E ?m2 args2 (?gl2\<lparr>state := Some (push ?s2)\<rparr>) = Inr (v1, ?gl3)"
    unfolding eq by (rule r2)
  show ?thesis
    using scope_run_nested [OF st r1 s2 r2' p1 p2]
    by (intro exI [of _ ?gl5] exI [of _ ?s5] exI [of _ ?gl6] exI [of _ ?s6])
       (simp add: getProp_upd_same)
qed

text \<open>
  C3, as amended. Nested scopes restore level by level: after \<^verbatim>\<open>push()\<close>, a change
  of \<open>A\<close> from \<open>v0\<close> to \<open>v1\<close>, \<^verbatim>\<open>push()\<close>, a change from \<open>v1\<close> to \<open>v2\<close> and
  \<^verbatim>\<open>pop()\<close>, the cache holds \<open>v1\<close> for \<open>A\<close> and the outer frame still holds \<open>v0\<close>; a
  second \<^verbatim>\<open>pop()\<close> leaves \<open>v0\<close>. \<^verbatim>\<open>pop()\<close> removes the top frame only after it has
  applied the recorded values, so the changes made during the restore are checked
  against the frame being popped and are recorded in no frame: every \<^verbatim>\<open>pop()\<close> leaves
  the frames below the top exactly as they were.
\<close>

theorem nested_scopes:
  assumes st: "state gl = Some st"
    and a1: "setter1 args1 = [(A, v1)]" and a2: "setter2 args2 = [(A, v2)]"
    and c1: "\<not> deepArrayEqual v1 (getProp (cache st) A)"
    and c2: "\<not> deepArrayEqual v2 v1"
  shows "(\<exists>gl5 st5 gl6 st6.
     run E [Push, Call (SetterSpy setter1 (Native f1)) args1,
            Push, Call (SetterSpy setter2 (Native f2)) args2, Pop] gl = Inr gl5 \<and>
     state gl5 = Some st5 \<and>
     getProp (cache st5) A = v1 \<and>
     stateStack st5 = stateStack st @ [[(A, getProp (cache st) A)]] \<and>
     run E [Push, Call (SetterSpy setter1 (Native f1)) args1,
            Push, Call (SetterSpy setter2 (Native f2)) args2, Pop, Pop] gl = Inr gl6 \<and>
     state gl6 = Some st6 \<and>
     getProp (cache st6) A = getProp (cache st) A \<and>
     stateStack st6 = stateStack st) \<and>
    (\<forall>g s. state g = Some s \<and> stateStack s \<noteq> [] \<longrightarrow>
       (\<exists>g' s'. pop g = Inr g' \<and> state g' = Some s' \<and>
          stateStack s' = butlast (stateStack s)))"
  using scope_nested [where ?setter1.0 = setter1 and ?setter2.0 = setter2, OF st a1 a2 c1 c2]
    pop_outer_frames
  by blast

text \<open>
  On the example context: the viewport is changed in an outer scope and again in an
  inner one.
\<close>

theorem nested_scopes_witness:
  "state (demo_tracked demo_state) = Some demo_state \<and>
   viewport_adapter [Number 0, Number 0, Number 1, Number 1] = [(Number 2978, Array 1 [Number 0, Number 0, Number 1, Number 1])] \<and>
   viewport_adapter [Number 0, Number 0, Number 2, Number 2] = [(Number 2978, Array 1 [Number 0, Number 0, Number 2, Number 2])] \<and>
   \<not> deepArrayEqual (Array 1 [Number 0, Number 0, Number 1, Number 1]) (getProp (cache demo_state) (Number 2978)) \<and>
   \<not> deepArrayEqual (Array 1 [Number 0, Number 0, Number 2, Number 2]) (Array 1 [Number 0, Number 0, Number 1, Number 1]) \<and>
   (\<exists>gl5 st5 gl6 st6.
      run demo_env [Push, Call (SetterSpy viewport_adapter (Native ''viewport'')) [Number 0, Number 0, Number 1, Number 1],
          Push, Call (SetterSpy viewport_adapter (Native ''viewport'')) [Number 0, Number 0, Number 2, Number 2], Pop]
        (demo_tracked demo_state) = Inr gl5 \<and>
      state gl5 = Some st5 \<and>
      getProp (cache st5) (Number 2978) = Array 1 [Number 0, Number 0, Number 1, Number 1] \<and>
      stateStack st5 = [[(Number 2978, Array 0 [Number 0, Number 0, Number 300, Number 150])]] \<and>
      run demo_env [Push, Call (SetterSpy viewport_adapter (Native ''viewport'')) [Number 0, Number 0, Number 1, Number 1],
          Push, Call (SetterSpy viewport_adapter (Native ''viewport'')) [Number 0, Number 0, Number 2, Number 2], Pop, Pop]
        (demo_tracked demo_state) = Inr gl6 \<and>
      state gl6 = Some st6 \<and>
      getProp (cache st6) (Number 2978) = Array 0 [Number 0, Number 0, Number 300, Number 150] \<and>
      stateStack st6 = []) \<and>
   (state (demo_tracked demo_scoped) = Some demo_scoped \<and> stateStack demo_scoped \<noteq> []) \<and>
   (\<exists>g' s'. pop (demo_tracked demo_scoped) = Inr g' \<and> state g' = Some s' \<and>
      stateStack s' = butlast (stateStack demo_scoped))"
proof -
  have sc: "state (demo_tracked demo_scoped) = Some demo_scoped \<and> stateStack demo_scoped \<noteq> []"
    by (simp add: demo_tracked_def demo_scoped_def)
  have st: "state (demo_tracked demo_state) = Some demo_state"
    by (simp add: demo_tracked_def)
  have a1: "viewport_adapter [Number 0, Number 0, Number 1, Number 1] = [(Number 2978, Array 1 [Number 0, Number 0, Number 1, Number 1])]"
    by (simp add: viewport_adapter_def)
  have a2: "viewport_adapter [Number 0, Number 0, Number 2, Number 2] = [(Number 2978, Array 1 [Number 0, Number 0, Number 2, Number 2])]"
    by (simp add: viewport_adapter_def)
  have v0: "getProp (cache demo_state) (Number 2978) = Array 0 [Number 0, Number 0, Number 300, Number 150]"
    by (simp add: demo_state_def getProp_def)
  have c1: "\<not> deepArrayEqual (Array 1 [Number 0, Number 0, Number 1, Number 1]) (getProp (cache demo_state) (Number 2978))"
    using v0 by simp
  have c2: "\<not> deepArrayEqual (Array 1 [Number 0, Number 0, Number 2, Number 2]) (Array 1 [Number 0, Number 0, Number 1, Number 1])"
    by simp
  have s0: "stateStack demo_state = []"
    by (simp add: demo_state_def)
  have "\<exists>gl5 st5 gl6 st6.
      run demo_env [Push, Call (SetterSpy viewport_adapter (Native ''viewport'')) [Number 0, Number 0, Number 1, Number 1],
          Push, Call (SetterSpy viewport_adapter (Native ''viewport'')) [Number 0, Number 0, Number 2, Number 2], Pop]
        (demo_tracked demo_state) = Inr gl5 \<and>
      state gl5 = Some st5 \<and>
      getProp (cache st5) (Number 2978) = Array 1 [Number 0, Number 0, Number 1, Number 1] \<and>
      stateStack st5 = [[(Number 2978, Array 0 [Number 0, Number 0, Number 300, Number 150])]] \<and>
      run demo_env [Push, Call (SetterSpy viewport_adapter (Native ''viewport'')) [Number 0, Number 0, Number 1, Number 1],
          Push, Call (SetterSpy viewport_adapter (Native ''viewport'')) [Number 0, Number 0, Number 2, Number 2], Pop, Pop]
        (demo_tracked demo_state) = Inr gl6 \<and>
      state gl6 = Some st6 \<and>
      getProp (cache st6) (Number 2978) = Array 0 [Number 0, Number 0, Number 300, Number 150] \<and>
      stateStack st6 = []"
    using nested_scopes [where ?setter1.0 = viewport_adapter and ?setter2.0 = viewport_adapter
        and E = demo_env and ?f1.0 = "''viewport''" and ?f2.0 = "''viewport''",
        OF st a1 a2 c1 c2] v0 s0
    by (metis append_Nil)
  moreover have "\<exists>g' s'. pop (demo_tracked demo_scoped) = Inr g' \<and> state g' = Some s' \<and>
      stateStack s' = butlast (stateStack demo_scoped)"
    using nested_scopes [where ?setter1.0 = viewport_adapter and ?setter2.0 = viewport_adapter
        and E = demo_env and ?f1.0 = "''viewport''" and ?f2.0 = "''viewport''",
        OF st a1 a2 c1 c2] sc
    by blast
  ultimately show ?thesis
    using st a1 a2 c1 c2 sc by blast
qed

text \<open>
  The claim as stated has the changes made during the restore attributed to the
  next-outer frame. On the example context, with two frames open, \<^verbatim>\<open>DEPTH_TEST\<close> is
  enabled in the inner one; the pop restores it to \<^verbatim>\<open>false\<close> through the underlying
  context, and the outer frame, the only one left, is still empty.
\<close>

theorem nested_scopes_counterexample:
  "run demo_env [Push, Push, Call demo_enable [Number 2929], Pop] (demo_tracked demo_state)
     = Inr ((demo_tracked (demo_state\<lparr>stateStack := [[]]\<rparr>))
              \<lparr>trace := [NativeCall ''enable'' [Number 2929],
                         Restore [(Number 2929, Boolean False)]]\<rparr>)"
  by (simp add: demo_enable_def enable_adapter_def demo_tracked_def demo_state_def
      updateCache_single arg0_def getProp_def push_def pop_def assert_def setParameters_def)

section \<open>Initialisation\<close>

text \<open>Tracking the example context, from the defaults, gives the example state.\<close>

lemma demo_tracking:
  "trackContextState demo_env demo_gl (Some \<lparr>opt_enable = None, opt_copyState = Some False\<rparr>)
     = Inr (demo_tracked demo_state)"
  apply (simp add: trackContextState_def assert_def installTracking_def demo_env_def demo_gl_def
      new_GLState_def installProgramSpy_def installSetterSpy_def installGetterOverride_def
      demo_tracked_def demo_state_def demo_getParameter_def demo_useProgram_def demo_enable_def
      demo_disable_def demo_viewport_def)
  apply (auto simp: fun_eq_iff)
  done

lemma updateCache_withEnable:
  "updateCache (st\<lparr>enable := b\<rparr>) vals =
     (case updateCache st vals of (s, ch, old) \<Rightarrow> (s\<lparr>enable := b\<rparr>, ch, old))"
proof -
  let ?ov = "if length (stateStack st) > 0 then Some (last (stateStack st)) else None"
  obtain ov' c' ch old where
      loop: "updateCache_loop vals ?ov (cache st) False Undefined = (ov', c', ch, old)"
    by (cases "updateCache_loop vals ?ov (cache st) False Undefined") auto
  have loop': "updateCache_loop vals
      (if length (stateStack (st\<lparr>enable := b\<rparr>)) > 0
       then Some (last (stateStack (st\<lparr>enable := b\<rparr>))) else None)
      (cache (st\<lparr>enable := b\<rparr>)) False Undefined = (ov', c', ch, old)"
    using loop by (cases "stateStack st = []") simp_all
  show ?thesis
    unfolding updateCache_loop_result [OF loop] updateCache_loop_result [OF loop']
    by (cases ov') simp_all
qed

lemma invoke_setter_withEnable:
  "invoke E (SetterSpy setter (Native f)) args (withEnable b gl) =
     map_sum id (map_prod id (withEnable b)) (invoke E (SetterSpy setter (Native f)) args gl)"
  by (cases "state gl")
     (auto simp: withEnable_def updateCache_withEnable split: prod.splits)

lemma pop_withEnable: "pop (withEnable b gl) = map_sum id (withEnable b) (pop gl)"
proof (cases "state gl")
  case None
  then show ?thesis by (simp add: withEnable_def pop_def)
next
  case (Some st)
  show ?thesis
  proof (cases "stateStack st = []")
    case True
    then show ?thesis using Some by (simp add: withEnable_def pop_def assert_def)
  next
    case False
    obtain s ch old where u: "updateCache st (last (stateStack st)) = (s, ch, old)"
      by (cases "updateCache st (last (stateStack st))") auto
    show ?thesis
      using Some False u
      by (simp add: withEnable_def pop_def assert_def setParameters_def updateCache_withEnable
          Let_def)
  qed
qed

lemma push_withEnable:
  "state gl = Some st \<Longrightarrow>
   (withEnable b gl)\<lparr>state := Some (push (st\<lparr>enable := b\<rparr>))\<rparr> =
     withEnable b (gl\<lparr>state := Some (push st)\<rparr>)"
  by (simp add: withEnable_def push_def)

lemma run_withEnable:
  assumes "\<forall>s\<in>set steps. s = Push \<or> s = Pop \<or>
             (\<exists>setter f args. s = Call (SetterSpy setter (Native f)) args)"
  shows "run E steps (withEnable b gl) = map_sum id (withEnable b) (run E steps gl)"
  using assms
proof (induction steps arbitrary: gl)
  case Nil
  then show ?case by simp
next
  case (Cons s steps)
  have tail: "\<forall>s\<in>set steps. s = Push \<or> s = Pop \<or>
             (\<exists>setter f args. s = Call (SetterSpy setter (Native f)) args)"
    using Cons.prems by simp
  note IH = Cons.IH [OF tail]
  consider (push) "s = Push" | (pop) "s = Pop"
    | (call) setter f args where "s = Call (SetterSpy setter (Native f)) args"
    using Cons.prems by auto
  then show ?case
  proof cases
    case push
    show ?thesis
    proof (cases "state gl")
      case None
      then show ?thesis using push by (simp add: withEnable_def)
    next
      case (Some st)
      have "state (withEnable b gl) = Some (st\<lparr>enable := b\<rparr>)"
        using Some by (simp add: withEnable_def)
      then show ?thesis
        using push Some IH [of "gl\<lparr>state := Some (push st)\<rparr>"] push_withEnable [OF Some, of b]
        by simp
    qed
  next
    case pop
    show ?thesis
      using pop IH by (cases "pop gl") (simp_all add: pop_withEnable)
  next
    case call
    show ?thesis
      using call IH
      by (cases "invoke E (SetterSpy setter (Native f)) args gl")
         (auto simp del: invoke.simps simp add: invoke_setter_withEnable)
  qed
qed

lemma track_again:
  assumes "state gl = Some st"
  shows "trackContextState E gl (Some \<lparr>opt_enable = en, opt_copyState = Some c\<rparr>) =
           Inr (withEnable (case en of None \<Rightarrow> True | Some b \<Rightarrow> b) gl)"
  using assms by (simp add: trackContextState_def assert_def withEnable_def)

text \<open>
  C5. On a context that is already tracked, \<^verbatim>\<open>trackContextState\<close> (called with
  \<^verbatim>\<open>copyState\<close>, as it must be) returns the same context with only the flag
  \<^verbatim>\<open>enable\<close> set: the installed functions, the cache, the stack and the underlying
  context are those from before, nothing is wrapped again. A later program of pushes,
  pops and hooked setter calls then runs exactly as it would have run before the second
  initialisation, the flag apart.
\<close>

theorem track_twice:
  assumes st: "state gl = Some st"
  shows "trackContextState E gl (Some \<lparr>opt_enable = en, opt_copyState = Some c\<rparr>) =
           Inr (withEnable (case en of None \<Rightarrow> True | Some b \<Rightarrow> b) gl) \<and>
         methods (withEnable b gl) = methods gl \<and>
         trace (withEnable b gl) = trace gl \<and>
         native (withEnable b gl) = native gl \<and>
         state (withEnable b gl) = Some (st\<lparr>enable := b\<rparr>) \<and>
         ((\<forall>s\<in>set steps. s = Push \<or> s = Pop \<or>
             (\<exists>setter f args. s = Call (SetterSpy setter (Native f)) args)) \<longrightarrow>
          run E steps (withEnable b gl) = map_sum id (withEnable b) (run E steps gl))"
proof (intro conjI impI)
  show "trackContextState E gl (Some \<lparr>opt_enable = en, opt_copyState = Some c\<rparr>) =
           Inr (withEnable (case en of None \<Rightarrow> True | Some b \<Rightarrow> b) gl)"
    by (rule track_again [OF st])
next
  assume "\<forall>s\<in>set steps. s = Push \<or> s = Pop \<or>
             (\<exists>setter f args. s = Call (SetterSpy setter (Native f)) args)"
  then show "run E steps (withEnable b gl) = map_sum id (withEnable b) (run E steps gl)"
    by (rule run_withEnable)
qed (simp_all add: withEnable_def st)

theorem track_twice_witness:
  "state (demo_tracked demo_state) = Some demo_state \<and>
   trackContextState demo_env (demo_tracked demo_state)
       (Some \<lparr>opt_enable = Some False, opt_copyState = Some False\<rparr>)
     = Inr (withEnable False (demo_tracked demo_state)) \<and>
   methods (withEnable False (demo_tracked demo_state)) = methods (demo_tracked demo_state) \<and>
   run demo_env [Push, Call (SetterSpy enable_adapter (Native ''enable'')) [Number 2929], Pop]
       (withEnable False (demo_tracked demo_state))
     = map_sum id (withEnable False)
         (run demo_env
            [Push, Call (SetterSpy enable_adapter (Native ''enable'')) [Number 2929], Pop]
            (demo_tracked demo_state))"
proof -
  have st: "state (demo_tracked demo_state) = Some demo_state"
    by (simp add: demo_tracked_def)
  have steps: "\<forall>s\<in>set [Push, Call (SetterSpy enable_adapter (Native ''enable'')) [Number 2929],
                          Pop].
                 s = Push \<or> s = Pop \<or>
                 (\<exists>setter f args. s = Call (SetterSpy setter (Native f)) args)"
    by simp
  show ?thesis
    using st steps
      track_twice [OF st, where E = demo_env and en = "Some False" and c = False and b = False
        and steps = "[Push, Call (SetterSpy enable_adapter (Native ''enable'')) [Number 2929],
                      Pop]"]
    by (simp del: run.simps set_simps)
qed

section \<open>Failures\<close>



text \<open>
  C10. \<^verbatim>\<open>trackContextState\<close> without the options argument fails on the destructuring
  of \<^verbatim>\<open>undefined\<close>, and with options that leave \<^verbatim>\<open>copyState\<close> out it fails with the
  assertion, whatever the context: also an already tracked one, on which only the flag
  was to be switched.
\<close>

theorem track_requires_copyState:
  "trackContextState E gl None = Inl TypeError \<and>
   trackContextState E gl (Some \<lparr>opt_enable = en, opt_copyState = None\<rparr>) = Inl AssertionFailed"
  by (simp add: trackContextState_def assert_def)

theorem track_requires_copyState_witness:
  "trackContextState demo_env (demo_tracked demo_state) None = Inl TypeError \<and>
   trackContextState demo_env (demo_tracked demo_state)
       (Some \<lparr>opt_enable = Some False, opt_copyState = None\<rparr>) = Inl AssertionFailed"
  using track_requires_copyState [of demo_env "demo_tracked demo_state" "Some False"]
  by simp

section \<open>Getters and the program spy\<close>

text \<open>
  C7. A query whose identifier is \<^verbatim>\<open>undefined\<close> or excluded from the cache is answered
  by the original function, called once with that identifier, and the context that
  results differs from the one before by that call alone: the answer does not depend on
  the cache, and no cache entry is written.
\<close>

theorem getter_bypass:
  assumes "arg0 args = pname"
    and "pname = Undefined \<or> pname \<in> set (NON_CACHE_PARAMETERS E)"
  shows "invoke E (GetterOverride (Native f)) args gl =
           Inr (native gl (trace gl) f [pname], gl\<lparr>trace := trace gl @ [NativeCall f [pname]]\<rparr>)"
  using assms by auto

theorem getter_bypass_witness:
  "arg0 [] = Undefined \<and>
   invoke demo_env (GetterOverride (Native ''getParameter'')) [] (demo_tracked demo_state)
     = Inr (Undefined,
            (demo_tracked demo_state)\<lparr>trace := [NativeCall ''getParameter'' [Undefined]]\<rparr>) \<and>
   arg0 [Number 34016] = Number 34016 \<and>
   (Number 34016 = Undefined \<or> Number 34016 \<in> set (NON_CACHE_PARAMETERS demo_env)) \<and>
   invoke demo_env (GetterOverride (Native ''getParameter'')) [Number 34016]
       (demo_tracked demo_state)
     = Inr (Number 33984,
            (demo_tracked demo_state)\<lparr>trace := [NativeCall ''getParameter'' [Number 34016]]\<rparr>)"
proof -
  have a: "arg0 [Number 34016] = Number 34016"
    by (simp add: arg0_def)
  have b: "Number 34016 = Undefined \<or> Number 34016 \<in> set (NON_CACHE_PARAMETERS demo_env)"
    by (simp add: demo_env_def)
  have n: "native (demo_tracked demo_state) (trace (demo_tracked demo_state))
             ''getParameter'' [Number 34016] = Number 33984"
    by (simp add: demo_tracked_def demo_native_def)
  have t: "trace (demo_tracked demo_state) = []"
    by (simp add: demo_tracked_def)
  have u: "arg0 [] = Undefined"
    by (simp add: arg0_def)
  have nu: "native (demo_tracked demo_state) (trace (demo_tracked demo_state))
             ''getParameter'' [Undefined] = Undefined"
    by (simp add: demo_tracked_def demo_native_def)
  have g1: "invoke demo_env (GetterOverride (Native ''getParameter'')) [] (demo_tracked demo_state)
     = Inr (Undefined,
            (demo_tracked demo_state)\<lparr>trace := [NativeCall ''getParameter'' [Undefined]]\<rparr>)"
    using getter_bypass [OF u, of demo_env "''getParameter''" "demo_tracked demo_state"] nu t
    by (simp del: invoke.simps)
  have g2: "invoke demo_env (GetterOverride (Native ''getParameter'')) [Number 34016]
       (demo_tracked demo_state)
     = Inr (Number 33984,
            (demo_tracked demo_state)\<lparr>trace := [NativeCall ''getParameter'' [Number 34016]]\<rparr>)"
    using getter_bypass [OF a b, of "''getParameter''" "demo_tracked demo_state"] n t
    by (simp del: invoke.simps)
  show ?thesis
    using u a b g1 g2 by blast
qed

text \<open>
  C9. The wrapper of \<^verbatim>\<open>useProgram\<close> does nothing at all when the handle is the cached
  one: the original function is not called and the context is unchanged. With another
  handle it calls the original function and then records the handle.
\<close>

theorem program_spy:
  assumes "state gl = Some st"
  shows "(program st = handle \<longrightarrow>
            invoke E (ProgramSpy original) [handle] gl = Inr (Undefined, gl)) \<and>
         (program st \<noteq> handle \<longrightarrow>
            invoke E (ProgramSpy (Native f)) [handle] gl =
              Inr (Undefined,
                   gl\<lparr>state := Some (st\<lparr>program := handle\<rparr>),
                      trace := trace gl @ [NativeCall f [handle]]\<rparr>))"
  using assms by (simp add: arg0_def)

theorem program_spy_witness:
  "state (demo_tracked demo_state) = Some demo_state \<and>
   program demo_state = Null \<and>
   invoke demo_env (ProgramSpy (Native ''useProgram'')) [Null] (demo_tracked demo_state)
     = Inr (Undefined, demo_tracked demo_state) \<and>
   program demo_state \<noteq> Object 7 \<and>
   invoke demo_env (ProgramSpy (Native ''useProgram'')) [Object 7] (demo_tracked demo_state)
     = Inr (Undefined,
            (demo_tracked demo_state)
              \<lparr>state := Some (demo_state\<lparr>program := Object 7\<rparr>),
               trace := trace (demo_tracked demo_state) @ [NativeCall ''useProgram'' [Object 7]]\<rparr>)"
proof -
  have st: "state (demo_tracked demo_state) = Some demo_state"
    by (simp add: demo_tracked_def)
  have p: "program demo_state = Null"
    by (simp add: demo_state_def)
  have q: "program demo_state \<noteq> Object 7"
    by (simp add: demo_state_def)
  show ?thesis
    using st p q
      program_spy [OF st, of Null demo_env "Native ''useProgram''"]
      program_spy [OF st, of "Object 7" demo_env _ "''useProgram''"]
    by blast
qed

section \<open>Disabled tracking\<close>

lemma updateCache_loop_cache_written:
  "distinct (map fst vals) \<Longrightarrow> (k, v) \<in> set vals \<Longrightarrow> \<not> deepArrayEqual v (getProp c k) \<Longrightarrow>
   fst (snd (updateCache_loop vals ov c ch old)) k = Some v"
proof (induction vals arbitrary: ov c ch old)
  case Nil
  then show ?case by simp
next
  case (Cons kv vals)
  obtain k' v' where kv: "kv = (k', v')" by (cases kv)
  show ?case
  proof (cases "(k, v) = (k', v')")
    case True
    then have notin: "k \<notin> set (map fst vals)" using Cons.prems kv by auto
    show ?thesis
      using True kv Cons.prems(3) updateCache_loop_cache_other [OF notin]
      by (simp add: Let_def)
  next
    case False
    then have mem: "(k, v) \<in> set vals" and dist: "distinct (map fst vals)"
      using Cons.prems kv by auto
    then have "k \<noteq> k'" using Cons.prems(1) kv by force
    then have "\<not> deepArrayEqual v (getProp (c(k' \<mapsto> v')) k)"
      using Cons.prems(3) by (simp add: getProp_upd_other)
    then show ?thesis
      using Cons.IH [OF dist mem] Cons.prems(3) kv by (auto simp: Let_def)
  qed
qed

lemma updateCache_cache_written:
  assumes "distinct (map fst vals)" and "(k, v) \<in> set vals"
    and "\<not> deepArrayEqual v (getProp (cache st) k)"
  shows "cache (fst (updateCache st vals)) k = Some v"
proof -
  let ?ov = "if length (stateStack st) > 0 then Some (last (stateStack st)) else None"
  obtain ov' c' ch old where
      loop: "updateCache_loop vals ?ov (cache st) False Undefined = (ov', c', ch, old)"
    by (cases "updateCache_loop vals ?ov (cache st) False Undefined") auto
  have "c' k = Some v"
    using updateCache_loop_cache_written [OF assms, of ?ov False Undefined] loop by simp
  then show ?thesis
    using updateCache_loop_result [OF loop] by simp
qed

lemma getter_disabled_cached:
  assumes "state gl = Some st" and "\<not> enable st"
    and "pname \<noteq> Undefined" and "pname \<notin> set (NON_CACHE_PARAMETERS E)"
    and "cache st pname = Some c"
  shows "invoke E (GetterOverride (Native f)) [pname] gl =
           Inr (native gl (trace gl) f [pname], gl\<lparr>trace := trace gl @ [NativeCall f [pname]]\<rparr>)"
  using assms by (simp add: arg0_def)

lemma getter_disabled_missing:
  assumes "state gl = Some st" and "\<not> enable st"
    and "pname \<noteq> Undefined" and "pname \<notin> set (NON_CACHE_PARAMETERS E)"
    and "cache st pname = None"
  shows "invoke E (GetterOverride (Native f)) [pname] gl =
           Inr (native gl (trace gl @ [NativeCall f [pname]]) f [pname],
                gl\<lparr>state := Some (st\<lparr>cache := (cache st)(pname \<mapsto> native gl (trace gl) f [pname])\<rparr>),
                   trace := trace gl @ [NativeCall f [pname], NativeCall f [pname]]\<rparr>)"
  using assms by (simp add: arg0_def)

lemma setter_disabled:
  assumes st: "state gl = Some st" and dis: "\<not> enable st"
    and dist: "distinct (map fst (setter args))"
  shows "\<exists>r gl1 st1.
     invoke E (SetterSpy setter (Native g)) args gl = Inr (r, gl1) \<and>
     state gl1 = Some st1 \<and> \<not> enable st1 \<and>
     (\<forall>(k, v)\<in>set (setter args).
        deepArrayEqual v (getProp (cache st1) k) \<and>
        (\<not> deepArrayEqual v (getProp (cache st) k) \<longrightarrow> cache st1 k = Some v)) \<and>
     trace gl1 = trace gl @
       (if (\<exists>(k, v)\<in>set (setter args). \<not> deepArrayEqual v (getProp (cache st) k))
        then [NativeCall g args] else [])"
proof -
  let ?u = "updateCache st (setter args)"
  let ?gl1 = "gl\<lparr>state := Some (fst ?u),
             trace := trace gl @ (if fst (snd ?u) then [NativeCall g args] else [])\<rparr>"
  have first: "invoke E (SetterSpy setter (Native g)) args gl = Inr (snd (snd ?u), ?gl1)"
    by (rule setter_first_call [OF st])
  have en: "\<not> enable (fst ?u)"
    using dis by (simp add: updateCache_enable)
  have vals: "\<forall>(k, v)\<in>set (setter args).
        deepArrayEqual v (getProp (cache (fst ?u)) k) \<and>
        (\<not> deepArrayEqual v (getProp (cache st) k) \<longrightarrow> cache (fst ?u) k = Some v)"
    using updateCache_cache_settled [OF dist] updateCache_cache_written [OF dist] by auto
  have tr: "trace ?gl1 = trace gl @
       (if (\<exists>(k, v)\<in>set (setter args). \<not> deepArrayEqual v (getProp (cache st) k))
        then [NativeCall g args] else [])"
    using updateCache_changed [of st "setter args"] by simp
  show ?thesis
    using first en vals tr
    by (intro exI [of _ "snd (snd ?u)"] exI [of _ ?gl1] exI [of _ "fst ?u"]) simp
qed

text \<open>
  C8. With \<^verbatim>\<open>enable\<close> false, a query of a cacheable identifier is answered by the
  original function even when the cache has an entry for it (after the entry has been
  filled by a first call, when it was missing). Setters go on as before: a call whose
  values are deeply equal to the cached ones does not reach the original function, and
  any other call stores its values in the cache and reaches the original function once;
  the flag stays false.
\<close>

theorem disabled_tracking:
  assumes st: "state gl = Some st" and dis: "\<not> enable st"
  shows "(pname \<noteq> Undefined \<and> pname \<notin> set (NON_CACHE_PARAMETERS E) \<and> cache st pname = Some c \<longrightarrow>
            invoke E (GetterOverride (Native f)) [pname] gl =
              Inr (native gl (trace gl) f [pname],
                   gl\<lparr>trace := trace gl @ [NativeCall f [pname]]\<rparr>)) \<and>
         (pname \<noteq> Undefined \<and> pname \<notin> set (NON_CACHE_PARAMETERS E) \<and> cache st pname = None \<longrightarrow>
            invoke E (GetterOverride (Native f)) [pname] gl =
              Inr (native gl (trace gl @ [NativeCall f [pname]]) f [pname],
                   gl\<lparr>state := Some (st\<lparr>cache :=
                                   (cache st)(pname \<mapsto> native gl (trace gl) f [pname])\<rparr>),
                      trace := trace gl @ [NativeCall f [pname], NativeCall f [pname]]\<rparr>)) \<and>
         ((\<forall>(k, v)\<in>set (setter args). deepArrayEqual v (getProp (cache st) k)) \<longrightarrow>
            invoke E (SetterSpy setter original) args gl = Inr (Undefined, gl)) \<and>
         (distinct (map fst (setter args)) \<longrightarrow>
            (\<exists>r gl1 st1.
               invoke E (SetterSpy setter (Native g)) args gl = Inr (r, gl1) \<and>
               state gl1 = Some st1 \<and> \<not> enable st1 \<and>
               (\<forall>(k, v)\<in>set (setter args).
                  deepArrayEqual v (getProp (cache st1) k) \<and>
                  (\<not> deepArrayEqual v (getProp (cache st) k) \<longrightarrow> cache st1 k = Some v)) \<and>
               trace gl1 = trace gl @
                 (if (\<exists>(k, v)\<in>set (setter args). \<not> deepArrayEqual v (getProp (cache st) k))
                  then [NativeCall g args] else [])))"
proof (intro conjI impI)
  assume "pname \<noteq> Undefined \<and> pname \<notin> set (NON_CACHE_PARAMETERS E) \<and> cache st pname = Some c"
  then show "invoke E (GetterOverride (Native f)) [pname] gl =
              Inr (native gl (trace gl) f [pname],
                   gl\<lparr>trace := trace gl @ [NativeCall f [pname]]\<rparr>)"
    using getter_disabled_cached [OF st dis] by blast
next
  assume "pname \<noteq> Undefined \<and> pname \<notin> set (NON_CACHE_PARAMETERS E) \<and> cache st pname = None"
  then show "invoke E (GetterOverride (Native f)) [pname] gl =
              Inr (native gl (trace gl @ [NativeCall f [pname]]) f [pname],
                   gl\<lparr>state := Some (st\<lparr>cache :=
                                   (cache st)(pname \<mapsto> native gl (trace gl) f [pname])\<rparr>),
                      trace := trace gl @ [NativeCall f [pname], NativeCall f [pname]]\<rparr>)"
    using getter_disabled_missing [OF st dis] by blast
next
  assume "\<forall>(k, v)\<in>set (setter args). deepArrayEqual v (getProp (cache st) k)"
  then show "invoke E (SetterSpy setter original) args gl = Inr (Undefined, gl)"
    by (rule setter_elided [OF st])
next
  assume "distinct (map fst (setter args))"
  then show "\<exists>r gl1 st1.
               invoke E (SetterSpy setter (Native g)) args gl = Inr (r, gl1) \<and>
               state gl1 = Some st1 \<and> \<not> enable st1 \<and>
               (\<forall>(k, v)\<in>set (setter args).
                  deepArrayEqual v (getProp (cache st1) k) \<and>
                  (\<not> deepArrayEqual v (getProp (cache st) k) \<longrightarrow> cache st1 k = Some v)) \<and>
               trace gl1 = trace gl @
                 (if (\<exists>(k, v)\<in>set (setter args). \<not> deepArrayEqual v (getProp (cache st) k))
                  then [NativeCall g args] else [])"
    by (rule setter_disabled [OF st dis])
qed

theorem disabled_tracking_witness:
  "state (demo_tracked (demo_state\<lparr>enable := False\<rparr>)) = Some (demo_state\<lparr>enable := False\<rparr>) \<and>
   \<not> enable (demo_state\<lparr>enable := False\<rparr>) \<and>
   cache (demo_state\<lparr>enable := False\<rparr>) (Number 2929) = Some (Boolean False) \<and>
   invoke demo_env (GetterOverride (Native ''getParameter'')) [Number 2929]
       (demo_tracked (demo_state\<lparr>enable := False\<rparr>))
     = Inr (Boolean True,
            (demo_tracked (demo_state\<lparr>enable := False\<rparr>))
              \<lparr>trace := [NativeCall ''getParameter'' [Number 2929]]\<rparr>) \<and>
   invoke demo_env (SetterSpy viewport_adapter (Native ''viewport''))
       [Number 0, Number 0, Number 300, Number 150]
       (demo_tracked (demo_state\<lparr>enable := False\<rparr>))
     = Inr (Undefined, demo_tracked (demo_state\<lparr>enable := False\<rparr>)) \<and>
   (\<exists>r gl1 st1.
      invoke demo_env (SetterSpy enable_adapter (Native ''enable'')) [Number 2929]
          (demo_tracked (demo_state\<lparr>enable := False\<rparr>)) = Inr (r, gl1) \<and>
      state gl1 = Some st1 \<and> \<not> enable st1 \<and>
      cache st1 (Number 2929) = Some (Boolean True) \<and>
      trace gl1 = [NativeCall ''enable'' [Number 2929]]) \<and>
   cache (demo_state\<lparr>enable := False\<rparr>) (Number 3042) = None \<and>
   invoke demo_env (GetterOverride (Native ''isEnabled'')) [Number 3042]
       (demo_tracked (demo_state\<lparr>enable := False\<rparr>))
     = Inr (Undefined,
            (demo_tracked (demo_state\<lparr>enable := False\<rparr>))
              \<lparr>state := Some (demo_state\<lparr>enable := False,
                                cache := (cache demo_state)(Number 3042 \<mapsto> Undefined)\<rparr>),
               trace := [NativeCall ''isEnabled'' [Number 3042],
                         NativeCall ''isEnabled'' [Number 3042]]\<rparr>)"
proof -
  let ?st = "demo_state\<lparr>enable := False\<rparr>"
  let ?gl = "demo_tracked ?st"
  have st: "state ?gl = Some ?st"
    by (simp add: demo_tracked_def)
  have dis: "\<not> enable ?st"
    by simp
  have c: "cache ?st (Number 2929) = Some (Boolean False)"
    by (simp add: demo_state_def)
  have p: "Number 2929 \<noteq> Undefined \<and> Number 2929 \<notin> set (NON_CACHE_PARAMETERS demo_env) \<and>
           cache ?st (Number 2929) = Some (Boolean False)"
    using c by (simp add: demo_env_def)
  have n: "native ?gl (trace ?gl) ''getParameter'' [Number 2929] = Boolean True"
    by (simp add: demo_tracked_def demo_native_def)
  have t: "trace ?gl = []"
    by (simp add: demo_tracked_def)
  have eq: "\<forall>(k, v)\<in>set (viewport_adapter [Number 0, Number 0, Number 300, Number 150]).
              deepArrayEqual v (getProp (cache ?st) k)"
    by (simp add: viewport_adapter_def demo_state_def getProp_def)
  have a: "enable_adapter [Number 2929] = [(Number 2929, Boolean True)]"
    by (simp add: enable_adapter_def arg0_def)
  have dist: "distinct (map fst (enable_adapter [Number 2929]))"
    by (simp add: a)
  have v0: "getProp (cache demo_state) (Number 2929) = Boolean False"
    by (simp add: demo_state_def getProp_def)
  note thm1 = disabled_tracking [OF st dis, where pname = "Number 2929" and E = demo_env
      and c = "Boolean False" and f = "''getParameter''" and setter = viewport_adapter
      and args = "[Number 0, Number 0, Number 300, Number 150]"
      and original = "Native ''viewport''"]
  note thm2 = disabled_tracking [OF st dis, where setter = enable_adapter
      and args = "[Number 2929]" and E = demo_env and g = "''enable''"]
  have g1: "invoke demo_env (GetterOverride (Native ''getParameter'')) [Number 2929] ?gl
     = Inr (Boolean True, ?gl\<lparr>trace := [NativeCall ''getParameter'' [Number 2929]]\<rparr>)"
    using thm1 p n t by simp
  have g2: "invoke demo_env (SetterSpy viewport_adapter (Native ''viewport''))
       [Number 0, Number 0, Number 300, Number 150] ?gl = Inr (Undefined, ?gl)"
    using thm1 eq by blast
  have g3: "\<exists>r gl1 st1.
      invoke demo_env (SetterSpy enable_adapter (Native ''enable'')) [Number 2929] ?gl
        = Inr (r, gl1) \<and>
      state gl1 = Some st1 \<and> \<not> enable st1 \<and>
      cache st1 (Number 2929) = Some (Boolean True) \<and>
      trace gl1 = [NativeCall ''enable'' [Number 2929]]"
  proof -
    from thm2 dist obtain r gl1 st1 where
      i: "invoke demo_env (SetterSpy enable_adapter (Native ''enable'')) [Number 2929] ?gl
            = Inr (r, gl1)"
      and s: "state gl1 = Some st1" and e: "\<not> enable st1"
      and v: "\<forall>(k, v)\<in>set (enable_adapter [Number 2929]).
                deepArrayEqual v (getProp (cache st1) k) \<and>
                (\<not> deepArrayEqual v (getProp (cache ?st) k) \<longrightarrow> cache st1 k = Some v)"
      and tr: "trace gl1 = trace ?gl @
                 (if (\<exists>(k, v)\<in>set (enable_adapter [Number 2929]).
                        \<not> deepArrayEqual v (getProp (cache ?st) k))
                  then [NativeCall ''enable'' [Number 2929]] else [])"
      by blast
    have "cache st1 (Number 2929) = Some (Boolean True)"
      using v by (simp add: a v0)
    moreover have "trace gl1 = [NativeCall ''enable'' [Number 2929]]"
      using tr t by (simp add: a v0)
    ultimately show ?thesis
      using i s e by blast
  qed
  have c4: "cache ?st (Number 3042) = None"
    by (simp add: demo_state_def)
  have p4: "Number 3042 \<noteq> Undefined \<and> Number 3042 \<notin> set (NON_CACHE_PARAMETERS demo_env) \<and>
            cache ?st (Number 3042) = None"
    using c4 by (simp add: demo_env_def)
  have n4: "native ?gl (trace ?gl) ''isEnabled'' [Number 3042] = Undefined"
    "native ?gl (trace ?gl @ [NativeCall ''isEnabled'' [Number 3042]]) ''isEnabled'' [Number 3042]
       = Undefined"
    by (simp_all add: demo_tracked_def demo_native_def)
  have g4: "invoke demo_env (GetterOverride (Native ''isEnabled'')) [Number 3042] ?gl
     = Inr (Undefined,
            ?gl\<lparr>state := Some (demo_state\<lparr>enable := False,
                                cache := (cache demo_state)(Number 3042 \<mapsto> Undefined)\<rparr>),
               trace := [NativeCall ''isEnabled'' [Number 3042],
                         NativeCall ''isEnabled'' [Number 3042]]\<rparr>)"
    using disabled_tracking [OF st dis, where pname = "Number 3042" and E = demo_env
        and f = "''isEnabled''"] p4 n4 t
    by (simp del: invoke.simps)
  show ?thesis
    using st dis c g1 g2 g3 c4 g4 by blast
qed

end
